(* ===== verification/Icon_Prelude.thy ===== *)
theory Icon_Prelude
  imports Complex_Main "HOL-Library.Word"
begin

text \<open>
  Shared vocabulary of the development: the Python values the two icon
  scripts compute with, and the list lemmas every component needs.

  \<^item> Bytes objects are lists of 8-bit words; Python integers are \<open>int\<close>.
  \<^item> An exception is a value: a computation that can raise returns
    \<open>py_error + 'a\<close> with \<open>Inl\<close> the exception. \<open>bind_res\<close> sequences two
    such computations the way two statements are sequenced, and \<open>for_res\<close>
    is a \<^verbatim>\<open>for\<close> loop whose body can raise.
  \<^item> \<open>py_range\<close>, \<open>py_slice\<close>, \<open>py_repeat\<close> and \<open>py_bytes\<close> are the built-ins
    \<^verbatim>\<open>range(n)\<close>, \<^verbatim>\<open>xs[i:j]\<close>, \<^verbatim>\<open>bs * n\<close> and \<^verbatim>\<open>bytes(xs)\<close> with the behaviour
    Python gives them outside the comfortable cases (negative bounds,
    negative repetition counts, values that are no bytes).
  \<^item> The collections \<open>py_length\<close> (lengths of byte strings), \<open>py_ok\<close> (results of
    computations that succeed) and \<open>py_eval\<close> (unfolding of the built-ins on
    numerals) carry the component proofs.
\<close>

section \<open>Fact collections\<close>

named_theorems py_length "lengths of the lists and byte strings the scripts build"
named_theorems py_ok "values of computations that do not raise"
named_theorems py_eval "evaluation of the Python built-ins on literals"

section \<open>Values and exceptions\<close>

type_synonym byte = "8 word"
type_synonym bytes = "byte list"

datatype py_error = StructError | ValueError | ZeroDivisionError | OverflowError | OSError

type_synonym 'a result = "py_error + 'a"

definition bind_res :: "'e + 'a \<Rightarrow> ('a \<Rightarrow> 'e + 'b) \<Rightarrow> 'e + 'b" where
  "bind_res m f = (case m of Inl e \<Rightarrow> Inl e | Inr x \<Rightarrow> f x)"

definition is_ok :: "'e + 'a \<Rightarrow> bool" where
  "is_ok m = (case m of Inl _ \<Rightarrow> False | Inr _ \<Rightarrow> True)"

primrec for_res :: "'a list \<Rightarrow> ('a \<Rightarrow> 's \<Rightarrow> 'e + 's) \<Rightarrow> 's \<Rightarrow> 'e + 's" where
  "for_res [] body s = Inr s"
| "for_res (x # xs) body s = bind_res (body x s) (for_res xs body)"

section \<open>Built-ins on lists\<close>

definition py_range :: "int \<Rightarrow> int list" where
  "py_range n = map int [0..<nat n]"

definition slice_index :: "nat \<Rightarrow> int \<Rightarrow> nat" where
  "slice_index len i = (if i < 0 then nat (max (i + int len) 0) else min (nat i) len)"

definition py_slice :: "'a list \<Rightarrow> int \<Rightarrow> int \<Rightarrow> 'a list" where
  "py_slice xs i j =
     drop (slice_index (length xs) i) (take (slice_index (length xs) j) xs)"

definition py_repeat :: "'a list \<Rightarrow> int \<Rightarrow> 'a list" where
  "py_repeat xs n = concat (replicate (nat n) xs)"

definition py_len :: "'a list \<Rightarrow> int" where
  "py_len xs = int (length xs)"

definition is_byte_value :: "int \<Rightarrow> bool" where
  "is_byte_value v \<longleftrightarrow> 0 \<le> v \<and> v < 256"

definition py_bytes :: "int list \<Rightarrow> bytes result" where
  "py_bytes vs =
     (if list_all is_byte_value vs then Inr (map word_of_int vs) else Inl ValueError)"

section \<open>Sequencing\<close>

lemma bind_res_Inr [simp]: "bind_res (Inr x) f = f x"
  by (simp add: bind_res_def)

lemma bind_res_Inl [simp]: "bind_res (Inl e) f = Inl e"
  by (simp add: bind_res_def)

lemma bind_res_eq_Inr_iff:
  "bind_res m f = Inr y \<longleftrightarrow> (\<exists>x. m = Inr x \<and> f x = Inr y)"
  by (cases m) simp_all

lemma bind_res_eq_Inl_iff:
  "bind_res m f = Inl e \<longleftrightarrow> m = Inl e \<or> (\<exists>x. m = Inr x \<and> f x = Inl e)"
  by (cases m) auto

lemma bind_res_assoc:
  "bind_res (bind_res m f) g = bind_res m (\<lambda>x. bind_res (f x) g)"
  by (cases m) simp_all

lemma is_ok_simps [simp]: "is_ok (Inr x)" "\<not> is_ok (Inl e)"
  by (simp_all add: is_ok_def)

lemma is_ok_iff: "is_ok m \<longleftrightarrow> (\<exists>x. m = Inr x)"
  by (cases m) simp_all

lemma is_ok_bind_res: "is_ok (bind_res m f) \<longleftrightarrow> (\<exists>x. m = Inr x \<and> is_ok (f x))"
  by (cases m) simp_all

section \<open>Loops\<close>

lemma for_res_append:
  "for_res (xs @ ys) body s = bind_res (for_res xs body s) (for_res ys body)"
proof (induction xs arbitrary: s)
  case Nil
  then show ?case by simp
next
  case (Cons x xs)
  then show ?case by (cases "body x s") simp_all
qed

text \<open>A loop whose body raises on no element is an ordinary fold.\<close>

lemma for_res_pure:
  "(\<And>x s. x \<in> set xs \<Longrightarrow> body x s = Inr (g x s)) \<Longrightarrow>
     for_res xs body s = Inr (fold g xs s)"
  by (induction xs arbitrary: s) simp_all

text \<open>A loop whose body raises one exception, on the elements that fail a test.\<close>

lemma for_res_guarded:
  assumes "\<And>x s. x \<in> set xs \<Longrightarrow> body x s = (if ok x then Inr (g x s) else Inl e)"
  shows "for_res xs body s = (if list_all ok xs then Inr (fold g xs s) else Inl e)"
  using assms by (induction xs arbitrary: s) simp_all

text \<open>The first element on which the body raises ends the loop with that exception.\<close>

lemma for_res_raises:
  "for_res xs body s = Inr t \<Longrightarrow> body x t = Inl e \<Longrightarrow>
     for_res (xs @ x # ys) body s = Inl e"
  by (simp add: for_res_append)

text \<open>The accumulation idiom \<^verbatim>\<open>acc.extend(f(x))\<close> / \<^verbatim>\<open>acc += f(x)\<close>.\<close>

lemma fold_extend: "fold (\<lambda>x acc. acc @ f x) xs acc = acc @ concat (map f xs)"
  by (induction xs arbitrary: acc) simp_all

lemma fold_snoc: "fold (\<lambda>x acc. acc @ [f x]) xs acc = acc @ map f xs"
  by (induction xs arbitrary: acc) simp_all

text \<open>A loop that appends what its body returns, and two of them nested.\<close>

lemma for_res_extend:
  assumes "\<And>x. x \<in> set xs \<Longrightarrow> body x = Inr (f x)"
  shows "for_res xs (\<lambda>x acc. bind_res (body x) (\<lambda>r. Inr (acc @ r))) acc
    = Inr (acc @ concat (map f xs))"
proof -
  have "for_res xs (\<lambda>x acc. bind_res (body x) (\<lambda>r. Inr (acc @ r))) acc
      = Inr (fold (\<lambda>x acc. acc @ f x) xs acc)"
    by (intro for_res_pure) (simp add: assms)
  then show ?thesis by (simp add: fold_extend)
qed

lemma for_res_rows:
  assumes "\<And>y x. y \<in> set ys \<Longrightarrow> x \<in> set xs \<Longrightarrow> body y x = Inr (f y x)"
  shows "for_res ys (\<lambda>y acc. for_res xs (\<lambda>x acc. bind_res (body y x) (\<lambda>r. Inr (acc @ r))) acc) acc
    = Inr (acc @ concat (map (\<lambda>y. concat (map (f y) xs)) ys))"
proof -
  have "for_res ys (\<lambda>y acc. for_res xs (\<lambda>x acc. bind_res (body y x) (\<lambda>r. Inr (acc @ r))) acc) acc
      = Inr (fold (\<lambda>y acc. acc @ concat (map (f y) xs)) ys acc)"
    by (intro for_res_pure) (simp add: for_res_extend assms)
  then show ?thesis by (simp add: fold_extend)
qed

lemma length_concat_map_const:
  "(\<And>x. x \<in> set xs \<Longrightarrow> length (f x) = k) \<Longrightarrow>
     length (concat (map f xs)) = k * length xs"
  by (induction xs) simp_all

text \<open>Row \<open>i\<close> of a concatenation of rows of one width.\<close>

lemma drop_concat_rows:
  "(\<And>x. x \<in> set xs \<Longrightarrow> length (f x) = k) \<Longrightarrow>
     drop (i * k) (concat (map f xs)) = concat (map f (drop i xs))"
proof (induction xs arbitrary: i)
  case Nil
  then show ?case by simp
next
  case (Cons x xs)
  show ?case
  proof (cases i)
    case 0
    then show ?thesis by simp
  next
    case (Suc j)
    with Cons show ?thesis by simp
  qed
qed

lemma take_concat_rows:
  "(\<And>x. x \<in> set xs \<Longrightarrow> length (f x) = k) \<Longrightarrow>
     take (i * k) (concat (map f xs)) = concat (map f (take i xs))"
proof (induction xs arbitrary: i)
  case Nil
  then show ?case by simp
next
  case (Cons x xs)
  show ?case
  proof (cases i)
    case 0
    then show ?thesis by simp
  next
    case (Suc j)
    with Cons show ?thesis by simp
  qed
qed

text \<open>Runs of one value (padding, masks, reserved fields) join into one run.\<close>

lemma replicate_append_same [simp]:
  "replicate m x @ replicate n x = replicate (m + n) x"
  "replicate m x @ replicate n x @ ys = replicate (m + n) x @ ys"
  by (simp_all add: replicate_add)

text \<open>Cutting a list into consecutive slices of one width and joining them again.\<close>

lemma concat_slices:
  "concat (map (\<lambda>i. drop (i * k) (take (i * k + k) xs)) [0..<n]) = take (n * k) xs"
proof (induction n)
  case 0
  then show ?case by simp
next
  case (Suc n)
  have "take (n * k) xs @ drop (n * k) (take (n * k + k) xs) = take (n * k + k) xs"
    by (metis append_take_drop_id take_take min.absorb1 le_add1)
  with Suc show ?case by (simp add: add.commute)
qed

lemma row_of_concat:
  assumes "\<And>x. x \<in> set xs \<Longrightarrow> length (f x) = k" and "i < length xs"
  shows "drop (i * k) (take (Suc i * k) (concat (map f xs))) = f (xs ! i)"
proof -
  have "take (Suc i * k) (concat (map f xs)) = concat (map f (take (Suc i) xs))"
    using assms(1) by (rule take_concat_rows)
  moreover have "drop (i * k) (concat (map f (take (Suc i) xs)))
      = concat (map f (drop i (take (Suc i) xs)))"
    using assms(1) by (intro drop_concat_rows) (auto dest: in_set_takeD)
  moreover have "drop i (take (Suc i) xs) = [xs ! i]"
    using assms(2) by (simp add: take_Suc_conv_app_nth)
  ultimately show ?thesis by simp
qed

section \<open>range\<close>

lemma length_py_range [simp, py_length]: "length (py_range n) = nat n"
  by (simp add: py_range_def)

lemma set_py_range [simp]: "set (py_range n) = {0..<n}"
proof -
  have "int ` {0..<nat n} = {0..<n}"
    by (cases "0 \<le> n") (simp_all add: image_int_atLeastLessThan)
  then show ?thesis by (simp add: py_range_def)
qed

lemma nth_py_range [simp]: "i < nat n \<Longrightarrow> py_range n ! i = int i"
  by (simp add: py_range_def)

lemma py_range_nonpos [simp]: "n \<le> 0 \<Longrightarrow> py_range n = []"
  by (simp add: py_range_def)

lemma py_range_Suc: "0 \<le> n \<Longrightarrow> py_range (n + 1) = py_range n @ [n]"
  by (simp add: py_range_def nat_add_distrib)

lemma py_range_int: "py_range (int n) = map int [0..<n]"
  by (simp add: py_range_def)

lemma distinct_py_range [simp]: "distinct (py_range n)"
  by (simp add: py_range_def distinct_map inj_on_def)

lemma py_range_rec [py_eval]:
  "0 < n \<Longrightarrow> py_range n = py_range (n - 1) @ [n - 1]"
  using py_range_Suc [of "n - 1"] by simp

lemma py_range_0 [simp]: "py_range 0 = []"
  by simp

section \<open>Integer division\<close>

text \<open>Python's \<^verbatim>\<open>//\<close> on integers rounds down, as \<open>div\<close> does.\<close>

lemma div_mult_bounds:
  fixes a d :: int
  assumes "0 < d"
  shows "(a div d) * d \<le> a" and "a < (a div d) * d + d"
  using pos_mod_sign [OF assms, of a] pos_mod_bound [OF assms, of a] div_mult_mod_eq [of a d]
  by linarith+

lemma int_div_bounds:
  fixes a d :: int
  assumes "0 < d" and "l * d \<le> a" and "a < u * d"
  shows "l \<le> a div d" and "a div d < u"
proof -
  from div_mult_bounds [OF assms(1), of a] have "a < (a div d + 1) * d" "(a div d) * d \<le> a"
    by (simp_all add: algebra_simps)
  with assms(2,3) have "l * d < (a div d + 1) * d" "(a div d) * d < u * d" by linarith+
  with assms(1) have "l < a div d + 1" "a div d < u" by (simp_all only: mult_less_cancel_right_pos)
  then show "l \<le> a div d" "a div d < u" by simp_all
qed

section \<open>Slices, repetition, bytes\<close>

lemma slice_index_nonneg [simp]: "0 \<le> i \<Longrightarrow> slice_index len i = min (nat i) len"
  by (simp add: slice_index_def)

lemma slice_index_le [simp]: "slice_index len i \<le> len"
  by (auto simp: slice_index_def)

lemma py_slice_nonneg:
  "0 \<le> i \<Longrightarrow> 0 \<le> j \<Longrightarrow> py_slice xs i j = drop (nat i) (take (nat j) xs)"
  by (simp add: py_slice_def min_def)

lemma py_slice_nat:
  "py_slice xs (int i) (int j) = drop i (take j xs)"
  by (simp add: py_slice_nonneg)

text \<open>Row \<open>i\<close> of a buffer of rows of \<open>k\<close> items each.\<close>

lemma py_slice_row:
  assumes "0 \<le> k"
  shows "py_slice xs (int i * k) (int i * k + k) = drop (i * nat k) (take (Suc i * nat k) xs)"
  using assms by (simp add: py_slice_nonneg nat_mult_distrib nat_add_distrib add.commute)

lemma length_py_slice_le: "length (py_slice xs i j) \<le> length xs"
  using le_trans [OF diff_le_self slice_index_le] by (simp add: py_slice_def)

lemma py_slice_empty [simp]: "py_slice [] i j = []"
  by (simp add: py_slice_def)

lemma length_py_repeat [simp, py_length]:
  "length (py_repeat xs n) = nat n * length xs"
  by (simp add: py_repeat_def length_concat sum_list_replicate)

lemma py_repeat_nonpos [simp]: "n \<le> 0 \<Longrightarrow> py_repeat xs n = []"
  by (simp add: py_repeat_def)

lemma py_repeat_single: "py_repeat [x] n = replicate (nat n) x"
  by (simp add: py_repeat_def)

lemma set_py_repeat_single: "set (py_repeat [x] n) \<subseteq> {x}"
  by (auto simp: py_repeat_single)

lemma py_len_append [simp]: "py_len (xs @ ys) = py_len xs + py_len ys"
  by (simp add: py_len_def)

lemma py_len_nonneg [simp]: "0 \<le> py_len xs"
  by (simp add: py_len_def)

lemma py_len_Nil [simp]: "py_len [] = 0"
  by (simp add: py_len_def)

lemma py_len_Cons [simp]: "py_len (x # xs) = 1 + py_len xs"
  by (simp add: py_len_def)

lemma py_len_eq_length: "py_len xs = n \<Longrightarrow> 0 \<le> n \<Longrightarrow> length xs = nat n"
  by (auto simp: py_len_def)

lemma is_byte_value_numeral [simp]:
  "is_byte_value 0" "is_byte_value 1"
  "is_byte_value (numeral k) \<longleftrightarrow> (numeral k :: int) < 256"
  "\<not> is_byte_value (- numeral k)"
  by (simp_all add: is_byte_value_def)

lemma py_bytes_ok [py_ok]:
  "list_all is_byte_value vs \<Longrightarrow> py_bytes vs = Inr (map word_of_int vs)"
  by (simp add: py_bytes_def)

lemma py_bytes_raises:
  "\<not> list_all is_byte_value vs \<Longrightarrow> py_bytes vs = Inl ValueError"
  by (simp add: py_bytes_def)

lemma py_bytes_eq_Inr_iff:
  "py_bytes vs = Inr bs \<longleftrightarrow> list_all is_byte_value vs \<and> bs = map word_of_int vs"
  by (auto simp: py_bytes_def)

lemma py_bytes_length: "py_bytes vs = Inr bs \<Longrightarrow> length bs = length vs"
  by (auto simp: py_bytes_eq_Inr_iff)

text \<open>A byte made from a byte value reads back as that value.\<close>

lemma uint_byte_value:
  "is_byte_value v \<Longrightarrow> uint (word_of_int v :: byte) = v"
  by (simp add: is_byte_value_def uint_word_of_int_eq take_bit_eq_mod)

lemma py_bytes_roundtrip:
  "py_bytes vs = Inr bs \<Longrightarrow> map uint bs = vs"
  by (auto simp: py_bytes_eq_Inr_iff list_all_iff uint_byte_value intro: map_idI)

end
