(* ===== verification/Py_For.thy ===== *)
theory Py_For
  imports Icon_Prelude "HOL-Library.While_Combinator"
begin

text \<open>
  The \<^verbatim>\<open>for\<close> statement as the loop the interpreter runs. \<open>for_res\<close> of the
  prelude is a recursion over the list and ends by construction; \<open>for_iter\<close>
  is the same statement with the state the interpreter keeps, the index of
  the next element and what the body left, iterated by \<open>while_option\<close> as long
  as an element is left and nothing has been raised. That this loop ends, and
  that it ends with the result of \<open>for_res\<close>, is proved here: termination by
  the measure \<open>len(xs) - i\<close>, the result by the invariant \<open>iter_inv\<close>.
\<close>

section \<open>The loop\<close>

type_synonym ('e, 's) iter_state = "nat \<times> ('e + 's)"

definition iter_test :: "'a list \<Rightarrow> ('e, 's) iter_state \<Rightarrow> bool" where
  "iter_test xs = (\<lambda>(i, r). i < length xs \<and> is_ok r)"

definition iter_step ::
  "'a list \<Rightarrow> ('a \<Rightarrow> 's \<Rightarrow> 'e + 's) \<Rightarrow> ('e, 's) iter_state \<Rightarrow> ('e, 's) iter_state" where
  "iter_step xs body = (\<lambda>(i, r). (Suc i, bind_res r (body (xs ! i))))"

definition for_iter ::
  "'a list \<Rightarrow> ('a \<Rightarrow> 's \<Rightarrow> 'e + 's) \<Rightarrow> 's \<Rightarrow> ('e, 's) iter_state option" where
  "for_iter xs body s = while_option (iter_test xs) (iter_step xs body) (0, Inr s)"

text \<open>
  The invariant of the loop: the index is within the list, the state is what
  the recursion gives on the elements before the index, and none of the
  iterations before the last one raised.
\<close>

definition iter_inv ::
  "'a list \<Rightarrow> ('a \<Rightarrow> 's \<Rightarrow> 'e + 's) \<Rightarrow> 's \<Rightarrow> ('e, 's) iter_state \<Rightarrow> bool" where
  "iter_inv xs body s = (\<lambda>(i, r). i \<le> length xs \<and> r = for_res (take i xs) body s
     \<and> (\<forall>j<i. is_ok (for_res (take j xs) body s)))"

section \<open>Prefixes of a loop\<close>

lemma for_res_take_Suc:
  "i < length xs \<Longrightarrow>
     for_res (take (Suc i) xs) body s = bind_res (for_res (take i xs) body s) (body (xs ! i))"
  by (simp add: take_Suc_conv_app_nth for_res_append bind_res_def split: sum.splits)

lemma for_res_prefix_raises:
  assumes "\<not> is_ok (for_res (take i xs) body s)"
  shows "for_res xs body s = for_res (take i xs) body s"
proof -
  have "for_res (take i xs @ drop i xs) body s = for_res (take i xs) body s"
    using assms unfolding for_res_append by (cases "for_res (take i xs) body s") simp_all
  then show ?thesis by simp
qed

section \<open>Invariant and measure\<close>

lemma iter_inv_init: "iter_inv xs body s (0, Inr s)"
  by (simp add: iter_inv_def)

lemma iter_inv_step:
  assumes "iter_inv xs body s st" and "iter_test xs st"
  shows "iter_inv xs body s (iter_step xs body st)"
    and "length xs - fst (iter_step xs body st) < length xs - fst st"
proof -
  obtain i r where st: "st = (i, r)" by (cases st)
  from assms st have i: "i < length xs" and r: "r = for_res (take i xs) body s" "is_ok r"
    and before: "\<forall>j<i. is_ok (for_res (take j xs) body s)"
    by (simp_all add: iter_inv_def iter_test_def)
  from r before have "\<forall>j<Suc i. is_ok (for_res (take j xs) body s)"
    by (simp add: less_Suc_eq)
  with i r show "iter_inv xs body s (iter_step xs body st)"
    by (simp add: st iter_inv_def iter_step_def for_res_take_Suc)
  from i show "length xs - fst (iter_step xs body st) < length xs - fst st"
    by (simp add: st iter_step_def)
qed

lemma iter_inv_exit:
  assumes "iter_inv xs body s (k, r)" and "\<not> iter_test xs (k, r)"
  shows "r = for_res xs body s" and "k = length xs \<or> \<not> is_ok (for_res xs body s)"
proof -
  from assms have k: "k \<le> length xs" and r: "r = for_res (take k xs) body s"
    and stop: "k = length xs \<or> \<not> is_ok r"
    by (auto simp: iter_inv_def iter_test_def)
  from stop r for_res_prefix_raises [of k xs body s] show "r = for_res xs body s"
    by auto
  with stop show "k = length xs \<or> \<not> is_ok (for_res xs body s)"
    by simp
qed

lemma for_iter_returns: "\<exists>st. for_iter xs body s = Some st"
  unfolding for_iter_def
  by (rule measure_while_option_Some
      [where P = "iter_inv xs body s" and f = "\<lambda>st. length xs - fst st"])
    (simp_all add: iter_inv_step iter_inv_init)

lemma for_iter_invariant:
  assumes "for_iter xs body s = Some st"
  shows "iter_inv xs body s st" and "\<not> iter_test xs st"
proof -
  show "iter_inv xs body s st"
    by (rule while_option_rule [OF _ assms [unfolded for_iter_def]])
      (simp_all add: iter_inv_step iter_inv_init)
  show "\<not> iter_test xs st"
    using assms unfolding for_iter_def by (rule while_option_stop)
qed

text \<open>The number of iterations, when nothing is raised and when something is.\<close>

lemma for_iter_ok:
  assumes "is_ok (for_res xs body s)"
  shows "for_iter xs body s = Some (length xs, for_res xs body s)"
proof -
  from for_iter_returns obtain k r where ret: "for_iter xs body s = Some (k, r)"
    by fastforce
  from iter_inv_exit [OF for_iter_invariant [OF ret]] assms ret show ?thesis
    by simp
qed

lemma for_iter_raises:
  assumes "i < length xs" and "is_ok (for_res (take i xs) body s)"
    and "\<not> is_ok (for_res (take (Suc i) xs) body s)"
  shows "for_iter xs body s = Some (Suc i, for_res (take (Suc i) xs) body s)"
proof -
  from for_iter_returns obtain k r where ret: "for_iter xs body s = Some (k, r)"
    by fastforce
  note inv = for_iter_invariant [OF ret]
  from inv(1) have k: "k \<le> length xs" and r: "r = for_res (take k xs) body s"
    and before: "\<forall>j<k. is_ok (for_res (take j xs) body s)"
    by (simp_all add: iter_inv_def)
  from assms(3) have raised: "for_res xs body s = for_res (take (Suc i) xs) body s"
    by (rule for_res_prefix_raises)
  with iter_inv_exit(1) [OF inv] r assms(2,3) have "k \<noteq> i"
    by auto
  moreover from before assms(3) have "\<not> Suc i < k"
    by auto
  moreover from inv(2) r k have "k < i \<Longrightarrow> \<not> is_ok (for_res (take k xs) body s)"
    using assms(1) by (simp add: iter_test_def)
  with assms(2) for_res_prefix_raises [of k "take i xs" body s] have "\<not> k < i"
    by (auto simp: min_def)
  ultimately have "k = Suc i" by linarith
  with ret r show ?thesis by simp
qed

text \<open>A loop whose body raises one exception, on the elements that fail a test.\<close>

lemma length_takeWhile_less:
  "\<not> list_all P xs \<Longrightarrow> length (takeWhile P xs) < length xs"
  by (induction xs) auto

lemma for_iter_guarded:
  assumes body: "\<And>x s. body x s = (if ok x then Inr (g x s) else Inl e)"
  shows "for_iter xs body s
    = Some (if list_all ok xs then length xs else Suc (length (takeWhile ok xs)),
            for_res xs body s)"
proof (cases "list_all ok xs")
  case True
  then have "is_ok (for_res xs body s)"
    by (simp add: for_res_guarded [where body = body and ok = ok and g = g and e = e, OF body])
  with True show ?thesis by (simp add: for_iter_ok)
next
  case False
  let ?i = "length (takeWhile ok xs)"
  note loop = for_res_guarded [where body = body and ok = ok and g = g and e = e, OF body]
  from False have i: "?i < length xs" by (rule length_takeWhile_less)
  have "take ?i xs = takeWhile ok xs"
    by (rule takeWhile_eq_take [symmetric])
  moreover have "list_all ok (takeWhile ok xs)"
    by (auto simp: list_all_iff dest: set_takeWhileD)
  ultimately have before: "is_ok (for_res (take ?i xs) body s)"
    by (simp add: loop)
  from i have "\<not> ok (xs ! ?i)" by (rule nth_length_takeWhile)
  with i have "\<not> list_all ok (take (Suc ?i) xs)"
    by (simp add: take_Suc_conv_app_nth)
  then have raised: "for_res (take (Suc ?i) xs) body s = Inl e"
    by (simp add: loop)
  then have "\<not> is_ok (for_res (take (Suc ?i) xs) body s)" by simp
  from for_iter_raises [OF i before this] raised False show ?thesis
    by (simp add: loop)
qed

section \<open>Properties\<close>



end
