(* ===== verification/Py_Struct.thy ===== *)
theory Py_Struct
  imports Icon_Prelude
begin

text \<open>
  The fragment of Python's \<^verbatim>\<open>struct\<close> module the scripts use: \<^verbatim>\<open>struct.pack\<close>
  with a little-endian, standard-size format (\<^verbatim>\<open>'<'\<close> followed by the codes
  \<^verbatim>\<open>B\<close>, \<^verbatim>\<open>H\<close> and \<^verbatim>\<open>I\<close> for unsigned fields of 1, 2 and 4 bytes).

  \<^item> \<open>pack\<close> takes the format as the string literal the source writes and the
    values as Python integers. It raises \<^verbatim>\<open>struct.error\<close> (\<open>Inl StructError\<close>)
    when the number of values differs from the number of codes or a value
    does not fit its field; nothing is ever truncated silently.
  \<^item> \<open>unpack\<close> is the reader's side, used to state what a consumer of the
    file sees; \<open>pack\<close> and \<open>unpack\<close> are inverse on the values that fit.
  \<^item> Formats outside this fragment (another byte order, other codes, repeat
    counts) are not modelled: \<open>parse_format\<close> is \<open>None\<close> on them.
\<close>

section \<open>Formats\<close>

datatype fmt_code = Fmt_B | Fmt_H | Fmt_I

primrec field_size :: "fmt_code \<Rightarrow> nat" where
  "field_size Fmt_B = 1"
| "field_size Fmt_H = 2"
| "field_size Fmt_I = 4"

definition fmt_of_char :: "char \<Rightarrow> fmt_code option" where
  "fmt_of_char c =
     (if c = CHR ''B'' then Some Fmt_B
      else if c = CHR ''H'' then Some Fmt_H
      else if c = CHR ''I'' then Some Fmt_I
      else None)"

definition parse_format :: "string \<Rightarrow> fmt_code list option" where
  "parse_format fmt =
     (case fmt of
        [] \<Rightarrow> None
      | c # cs \<Rightarrow> if c = CHR ''<'' then those (map fmt_of_char cs) else None)"

definition calcsize :: "fmt_code list \<Rightarrow> nat" where
  "calcsize cs = sum_list (map field_size cs)"

section \<open>Little-endian fields\<close>

primrec le_bytes :: "nat \<Rightarrow> int \<Rightarrow> bytes" where
  "le_bytes 0 v = []"
| "le_bytes (Suc n) v = word_of_int v # le_bytes n (v div 256)"

primrec le_int :: "bytes \<Rightarrow> int" where
  "le_int [] = 0"
| "le_int (b # bs) = uint b + 256 * le_int bs"

definition fits :: "fmt_code \<Rightarrow> int \<Rightarrow> bool" where
  "fits c v \<longleftrightarrow> 0 \<le> v \<and> v < 256 ^ field_size c"

definition pack_field :: "fmt_code \<Rightarrow> int \<Rightarrow> bytes result" where
  "pack_field c v = (if fits c v then Inr (le_bytes (field_size c) v) else Inl StructError)"

section \<open>pack and unpack\<close>

fun pack_fields :: "fmt_code list \<Rightarrow> int list \<Rightarrow> bytes result" where
  "pack_fields [] [] = Inr []"
| "pack_fields (c # cs) (v # vs) =
     bind_res (pack_field c v) (\<lambda>b. bind_res (pack_fields cs vs) (\<lambda>bs. Inr (b @ bs)))"
| "pack_fields _ _ = Inl StructError"

definition pack :: "string \<Rightarrow> int list \<Rightarrow> bytes result" where
  "pack fmt vs =
     (case parse_format fmt of
        None \<Rightarrow> Inl StructError
      | Some cs \<Rightarrow> pack_fields cs vs)"

primrec unpack_fields :: "fmt_code list \<Rightarrow> bytes \<Rightarrow> int list" where
  "unpack_fields [] bs = []"
| "unpack_fields (c # cs) bs =
     le_int (take (field_size c) bs) # unpack_fields cs (drop (field_size c) bs)"

definition unpack :: "string \<Rightarrow> bytes \<Rightarrow> int list result" where
  "unpack fmt bs =
     (case parse_format fmt of
        None \<Rightarrow> Inl StructError
      | Some cs \<Rightarrow>
          if length bs = calcsize cs then Inr (unpack_fields cs bs) else Inl StructError)"

section \<open>Fields\<close>

lemma length_le_bytes [simp, py_length]: "length (le_bytes n v) = n"
  by (induction n arbitrary: v) simp_all

lemma le_bytes_numeral [py_eval]:
  "le_bytes 1 v = [word_of_int v]"
  "le_bytes 2 v = [word_of_int v, word_of_int (v div 256)]"
  "le_bytes 4 v = [word_of_int v, word_of_int (v div 256),
     word_of_int (v div 256 div 256), word_of_int (v div 256 div 256 div 256)]"
  by (simp_all add: numeral_eq_Suc)

lemma le_bytes_0 [simp]: "le_bytes n 0 = replicate n 0"
  by (induction n) simp_all

lemma le_int_nonneg [simp]: "0 \<le> le_int bs"
  by (induction bs) simp_all

lemma le_int_less: "le_int bs < 256 ^ length bs"
proof (induction bs)
  case Nil
  then show ?case by simp
next
  case (Cons b bs)
  have "uint b < 256" using uint_bounded [of b] by simp
  with Cons show ?case by simp
qed

lemma le_int_replicate_0 [simp]: "le_int (replicate n 0) = 0"
  by (induction n) simp_all

lemma uint_byte_mod: "uint (word_of_int v :: byte) = v mod 256"
  by (simp add: uint_word_of_int_eq take_bit_eq_mod)

text \<open>Two adjacent fields are one wider field: the second is the high part.\<close>

lemma byte_of_int_add_256: "(word_of_int (a + 256 * k) :: byte) = word_of_int a"
  unfolding word_of_int_eq_iff by (simp add: take_bit_eq_mod)

lemma le_bytes_append:
  "0 \<le> a \<Longrightarrow> a < 256 ^ m \<Longrightarrow> le_bytes m a @ le_bytes n b = le_bytes (m + n) (a + 256 ^ m * b)"
proof (induction m arbitrary: a)
  case 0
  then have "a = 0" by simp
  then show ?case by simp
next
  case (Suc m)
  from Suc.prems have "0 \<le> a div 256" "a div 256 < 256 ^ m"
    using int_div_bounds [of 256 0 a "256 ^ m"] by simp_all
  from Suc.IH [OF this] have "le_bytes (Suc m) a @ le_bytes n b
      = word_of_int a # le_bytes (m + n) (a div 256 + 256 ^ m * b)" by simp
  moreover have "(a + 256 ^ Suc m * b) div 256 = a div 256 + 256 ^ m * b" by simp
  moreover have "(word_of_int (a + 256 ^ Suc m * b) :: byte) = word_of_int a"
    using byte_of_int_add_256 [of a "256 ^ m * b"] by (simp only: power_Suc mult.assoc)
  ultimately show ?case by (simp only: le_bytes.simps add_Suc)
qed

text \<open>Writing a value that fits and reading the bytes back gives the value.\<close>

lemma le_int_le_bytes:
  "0 \<le> v \<Longrightarrow> v < 256 ^ n \<Longrightarrow> le_int (le_bytes n v) = v"
proof (induction n arbitrary: v)
  case 0
  then show ?case by simp
next
  case (Suc n)
  from Suc.prems have "0 \<le> v div 256" and "v div 256 < 256 ^ n"
    by simp_all
  then have "le_int (le_bytes n (v div 256)) = v div 256"
    by (rule Suc.IH)
  then show ?case by (simp add: uint_byte_mod)
qed

text \<open>A value that does not fit is cut to its low bytes: why \<open>pack\<close> checks first.\<close>

lemma le_int_le_bytes_mod:
  "le_int (le_bytes n v) = v mod 256 ^ n"
proof (induction n arbitrary: v)
  case 0
  then show ?case by simp
next
  case (Suc n)
  have "v mod 256 + 256 * (v div 256 mod 256 ^ n) = v mod (256 * 256 ^ n)"
    using zmod_zmult2_eq [of "256 ^ n" v 256] by simp
  with Suc show ?case by (simp add: uint_byte_mod)
qed

lemma le_bytes_le_int: "le_bytes (length bs) (le_int bs) = bs"
proof (induction bs)
  case Nil
  then show ?case by simp
next
  case (Cons b bs)
  have "uint b < 256" using uint_bounded [of b] by simp
  then have "(uint b + 256 * le_int bs) div 256 = le_int bs"
    by simp
  moreover have "(word_of_int (uint b + 256 * le_int bs) :: byte) = word_of_int (uint b)"
    unfolding word_of_int_eq_iff by (simp add: take_bit_eq_mod)
  ultimately show ?case using Cons by simp
qed

lemma fits_simps [simp]:
  "fits Fmt_B v \<longleftrightarrow> 0 \<le> v \<and> v < 256"
  "fits Fmt_H v \<longleftrightarrow> 0 \<le> v \<and> v < 65536"
  "fits Fmt_I v \<longleftrightarrow> 0 \<le> v \<and> v < 4294967296"
  by (simp_all add: fits_def)

lemma pack_field_ok [py_ok]:
  "fits c v \<Longrightarrow> pack_field c v = Inr (le_bytes (field_size c) v)"
  by (simp add: pack_field_def)

lemma pack_field_raises: "\<not> fits c v \<Longrightarrow> pack_field c v = Inl StructError"
  by (simp add: pack_field_def)

section \<open>pack\<close>

text \<open>
  \<open>encode_fields\<close> is what a successful \<open>pack\<close> returns: the fields in
  order, each in its own width. It is the reference the recursive
  \<open>pack_fields\<close> is compared with.
\<close>

definition encode_fields :: "fmt_code list \<Rightarrow> int list \<Rightarrow> bytes" where
  "encode_fields cs vs = concat (map2 (\<lambda>c v. le_bytes (field_size c) v) cs vs)"

lemma encode_fields_simps [simp]:
  "encode_fields [] vs = []"
  "encode_fields cs [] = []"
  "encode_fields (c # cs) (v # vs) = le_bytes (field_size c) v @ encode_fields cs vs"
  by (simp_all add: encode_fields_def)

lemma length_encode_fields [py_length]:
  "length cs = length vs \<Longrightarrow> length (encode_fields cs vs) = calcsize cs"
  by (induction cs vs rule: list_induct2) (simp_all add: calcsize_def)

lemma pack_fields_ok [py_ok]:
  "list_all2 fits cs vs \<Longrightarrow> pack_fields cs vs = Inr (encode_fields cs vs)"
  by (induction cs vs rule: list_all2_induct) (simp_all add: pack_field_ok)

lemma pack_fields_raises:
  "\<not> list_all2 fits cs vs \<Longrightarrow> pack_fields cs vs = Inl StructError"
proof (induction cs vs rule: pack_fields.induct)
  case (2 c cs v vs)
  show ?case
  proof (cases "fits c v")
    case True
    with 2 have "pack_fields cs vs = Inl StructError" by simp
    with True show ?thesis by (simp add: pack_field_ok)
  next
    case False
    then show ?thesis by (simp add: pack_field_raises)
  qed
qed simp_all

lemma pack_fields_eq_Inr_iff:
  "pack_fields cs vs = Inr bs \<longleftrightarrow> list_all2 fits cs vs \<and> bs = encode_fields cs vs"
  by (cases "list_all2 fits cs vs") (auto simp: pack_fields_ok pack_fields_raises)

lemma pack_fields_eq_Inl_iff:
  "pack_fields cs vs = Inl e \<longleftrightarrow> \<not> list_all2 fits cs vs \<and> e = StructError"
  by (cases "list_all2 fits cs vs") (auto simp: pack_fields_ok pack_fields_raises)

lemma pack_fields_length:
  "pack_fields cs vs = Inr bs \<Longrightarrow> length bs = calcsize cs"
  by (auto simp: pack_fields_eq_Inr_iff length_encode_fields dest: list_all2_lengthD)

text \<open>Two packs one after the other are one pack of the joined format.\<close>

lemma encode_fields_append:
  "length cs = length vs \<Longrightarrow>
     encode_fields (cs @ ds) (vs @ ws) = encode_fields cs vs @ encode_fields ds ws"
  by (induction cs vs rule: list_induct2) simp_all

section \<open>unpack\<close>

lemma length_unpack_fields [simp, py_length]: "length (unpack_fields cs bs) = length cs"
  by (induction cs arbitrary: bs) simp_all

lemma unpack_encode_fields:
  "list_all2 fits cs vs \<Longrightarrow> unpack_fields cs (encode_fields cs vs @ rest) = vs"
  by (induction cs vs rule: list_all2_induct) (simp_all add: fits_def le_int_le_bytes)

lemma fits_le_int: "length bs = field_size c \<Longrightarrow> fits c (le_int bs)"
  using le_int_less [of bs] by (simp add: fits_def)

lemma unpack_fields_fits:
  "calcsize cs \<le> length bs \<Longrightarrow> list_all2 fits cs (unpack_fields cs bs)"
proof (induction cs arbitrary: bs)
  case Nil
  then show ?case by simp
next
  case (Cons c cs)
  then have "field_size c \<le> length bs" and "calcsize cs \<le> length (drop (field_size c) bs)"
    by (simp_all add: calcsize_def)
  with Cons.IH show ?case by (simp add: fits_le_int)
qed

lemma encode_unpack_fields:
  "calcsize cs \<le> length bs \<Longrightarrow>
     encode_fields cs (unpack_fields cs bs) = take (calcsize cs) bs"
proof (induction cs arbitrary: bs)
  case Nil
  then show ?case by (simp add: calcsize_def)
next
  case (Cons c cs)
  let ?k = "field_size c"
  from Cons.prems have k: "?k \<le> length bs" and rest: "calcsize cs \<le> length (drop ?k bs)"
    by (simp_all add: calcsize_def)
  have "le_bytes ?k (le_int (take ?k bs)) = take ?k bs"
    using k le_bytes_le_int [of "take ?k bs"] by (simp add: min_absorb2)
  moreover have "encode_fields cs (unpack_fields cs (drop ?k bs)) = take (calcsize cs) (drop ?k bs)"
    using rest by (rule Cons.IH)
  ultimately show ?case
    by (simp add: calcsize_def take_add)
qed

lemmas format_eval [py_eval] = parse_format_def fmt_of_char_def calcsize_def

text \<open>\<open>unpack\<close> undoes \<open>pack\<close>, and \<open>pack\<close> undoes \<open>unpack\<close>.\<close>

lemma unpack_pack:
  assumes "pack fmt vs = Inr bs"
  shows "unpack fmt bs = Inr vs"
proof -
  from assms obtain cs where cs: "parse_format fmt = Some cs" and p: "pack_fields cs vs = Inr bs"
    by (auto simp: pack_def split: option.splits)
  from p have "list_all2 fits cs vs" and "bs = encode_fields cs vs"
    by (simp_all add: pack_fields_eq_Inr_iff)
  moreover from p have "length bs = calcsize cs" by (rule pack_fields_length)
  ultimately show ?thesis
    using cs unpack_encode_fields [of cs vs "[]"] by (simp add: unpack_def)
qed

lemma pack_unpack:
  assumes "unpack fmt bs = Inr vs"
  shows "pack fmt vs = Inr bs"
proof -
  from assms obtain cs where cs: "parse_format fmt = Some cs"
    and len: "length bs = calcsize cs" and vs: "vs = unpack_fields cs bs"
    by (auto simp: unpack_def split: option.splits if_splits)
  from len have "list_all2 fits cs vs" and "encode_fields cs vs = bs"
    by (simp_all add: vs unpack_fields_fits encode_unpack_fields)
  with cs show ?thesis by (simp add: pack_def pack_fields_ok)
qed

text \<open>\<open>pack\<close> in one equation: the format decides the fields, the values decide the outcome.\<close>

lemma pack_unfold:
  "pack fmt vs =
     (case parse_format fmt of
        None \<Rightarrow> Inl StructError
      | Some cs \<Rightarrow>
          if list_all2 fits cs vs then Inr (encode_fields cs vs) else Inl StructError)"
  by (simp add: pack_def pack_fields_ok pack_fields_raises split: option.splits)

lemma pack_length:
  "pack fmt vs = Inr bs \<Longrightarrow> \<exists>cs. parse_format fmt = Some cs \<and> length bs = calcsize cs"
  by (auto simp: pack_def pack_fields_length split: option.splits)

lemma pack_error: "pack fmt vs = Inl e \<Longrightarrow> e = StructError"
  by (auto simp: pack_def pack_fields_eq_Inl_iff split: option.splits)

section \<open>Properties\<close>





end
