(* ===== verification/Py_Float.thy ===== *)
theory Py_Float
  imports Icon_Prelude "HOL-Library.Log_Nat"
begin

text \<open>
  Python's \<^verbatim>\<open>float\<close> is an IEEE 754 binary64 number. The scripts compute every
  colour channel in floats and truncate the result with \<^verbatim>\<open>int()\<close>, and they
  compare float coordinates with decimal literals, so the model has to say
  what rounding does.

  A finite double is a rational number, and every float operation the scripts
  use (true division of integers, \<^verbatim>\<open>+\<close>, \<^verbatim>\<open>*\<close>, \<^verbatim>\<open>/\<close>, reading a literal)
  returns the exact rational result rounded to the nearest double, ties to the
  even significand. \<open>fl\<close> is that rounding as an executable function on \<open>rat\<close>:
  the exponent \<open>fl_exp\<close> of the argument (at least \<open>-1022\<close>, where the
  subnormal numbers begin) fixes the spacing \<open>2 powi (fl_exp q - 52)\<close> of the
  doubles around it, and \<open>rne\<close> picks the nearest multiple. \<open>fl\<close> itself has no
  largest value. True division of integers, the one operation the scripts
  apply to numbers of any size, raises \<^verbatim>\<open>OverflowError\<close> when the rounded
  quotient would reach \<open>2 ^ 1024\<close> (\<open>py_truediv\<close> with \<open>overflow_threshold\<close>);
  the operations on floats do not produce infinities here: lemma
  \<open>fl_in_range\<close> and the channel bounds of the icon theories show that no
  float of the scripts leaves \<open>[-256, 256]\<close>.

  What is proved here: \<open>rne\<close> and \<open>fl\<close> are monotone and odd, \<open>fl\<close> is the
  identity on dyadic numbers with a significand below \<open>2 ^ 53\<close> (in particular
  on the integers the scripts use), and \<open>py_int\<close> truncates towards zero; one
  rounding is off by at most half the spacing (\<open>fl_error\<close>), halving is
  exact (\<open>fl_half\<close>), \<^verbatim>\<open>int(c + a / d)\<close> is \<open>c + a div d\<close>
  (\<open>py_int_plus_quotient\<close>), rounded fractions of loop indices compare as
  the fractions do (\<open>fl_le_fractions\<close>), errors of several roundings add up
  (\<open>abs_error_add\<close>, \<open>abs_error_scale\<close>), and the threshold of \<open>py_truediv\<close>
  is exact: rounding reaches \<open>2 ^ 1024\<close> from it on and stays below it before
  (\<open>fl_overflows_iff\<close>, \<open>true_division_overflow\<close>).
\<close>

section \<open>Rounding to the nearest integer, ties to even\<close>

definition rne :: "rat \<Rightarrow> int" where
  "rne v = (let n = \<lfloor>v\<rfloor>; d = v - of_int n in
     if d < 1/2 then n else if 1/2 < d then n + 1 else if even n then n else n + 1)"

lemma rne_of_int [simp]: "rne (of_int n) = n"
  by (simp add: rne_def)

lemma rne_cases:
  "rne v = \<lfloor>v\<rfloor> \<or> rne v = \<lfloor>v\<rfloor> + 1"
  by (simp add: rne_def Let_def)

lemma rne_ge_int:
  assumes "of_int n \<le> v" shows "n \<le> rne v"
proof -
  from assms have "n \<le> \<lfloor>v\<rfloor>" by (simp add: le_floor_iff)
  with rne_cases [of v] show ?thesis by auto
qed

lemma rne_le_int:
  assumes "v \<le> of_int n" shows "rne v \<le> n"
proof (cases "v = of_int n")
  case True
  then show ?thesis by simp
next
  case False
  with assms have "v < of_int n" by simp
  then have "\<lfloor>v\<rfloor> < n" by (simp add: floor_less_iff)
  with rne_cases [of v] show ?thesis by auto
qed

lemma rne_mono:
  assumes "a \<le> b" shows "rne a \<le> rne b"
proof (cases "\<lfloor>a\<rfloor> = \<lfloor>b\<rfloor>")
  case True
  with assms have "a - of_int \<lfloor>a\<rfloor> \<le> b - of_int \<lfloor>b\<rfloor>" by simp
  with True show ?thesis by (auto simp: rne_def Let_def)
next
  case False
  with assms have "\<lfloor>a\<rfloor> < \<lfloor>b\<rfloor>" using floor_mono [of a b] by simp
  with rne_cases [of a] rne_cases [of b] show ?thesis by auto
qed

lemma rne_minus: "rne (- v) = - rne v"
proof (cases "v \<in> \<int>")
  case True
  then obtain n where "v = of_int n" by (auto elim: Ints_cases)
  then have "- v = of_int (- n)" by simp
  then show ?thesis unfolding \<open>v = of_int n\<close> by (simp only: rne_of_int)
next
  case False
  then have "v \<noteq> of_int \<lfloor>v\<rfloor>" by (metis Ints_of_int)
  then have f: "\<lfloor>- v\<rfloor> = - \<lfloor>v\<rfloor> - 1"
    by (simp add: floor_minus ceiling_altdef)
  show ?thesis
    unfolding rne_def Let_def f by (auto simp: not_less) 
qed

lemma rne_error: "\<bar>of_int (rne v) - v\<bar> \<le> 1/2"
proof -
  have "of_int \<lfloor>v\<rfloor> \<le> v" "v < of_int \<lfloor>v\<rfloor> + 1" by linarith+
  then show ?thesis
    unfolding rne_def Let_def by (auto simp: not_less abs_le_iff)
qed


section \<open>The binary exponent of a positive rational\<close>

definition expo :: "rat \<Rightarrow> int" where
  "expo q = (case quotient_of q of (a, b) \<Rightarrow>
     let d = bitlen a - bitlen b in if 2 powi d \<le> q then d else d - 1)"

lemma two_powi_pos [simp]: "0 < (2::rat) powi n"
  by (simp add: zero_less_power_int)

lemma two_powi_le_iff [simp]: "(2::rat) powi m \<le> 2 powi n \<longleftrightarrow> m \<le> n"
proof
  assume "(2::rat) powi m \<le> 2 powi n"
  show "m \<le> n"
  proof (rule ccontr)
    assume "\<not> m \<le> n"
    then have "(2::rat) powi n < 2 powi m"
      by (intro power_int_strict_increasing) simp_all
    with \<open>2 powi m \<le> 2 powi n\<close> show False by simp
  qed
qed (simp add: power_int_increasing)

lemma two_powi_less_iff [simp]: "(2::rat) powi m < 2 powi n \<longleftrightarrow> m < n"
  using two_powi_le_iff [of n m] by (simp only: not_le [symmetric])

lemma two_powi_add: "(2::rat) powi (m + n) = 2 powi m * 2 powi n"
  by (simp add: power_int_add)

lemma two_powi_diff: "(2::rat) powi (m - n) = 2 powi m / 2 powi n"
  by (simp add: power_int_diff)

lemma bitlen_powi_bounds:
  assumes "0 < a"
  shows "2 powi (bitlen a - 1) \<le> (of_int a :: rat)" and "(of_int a :: rat) < 2 powi bitlen a"
proof -
  from bitlen_bounds [OF assms]
  have lo: "2 ^ nat (bitlen a - 1) \<le> a" and hi: "a < 2 ^ nat (bitlen a)" by simp_all
  from hi assms have pos: "1 \<le> bitlen a"
    by (cases "bitlen a \<le> 0") simp_all
  have "(2::rat) powi (bitlen a - 1) = of_int (2 ^ nat (bitlen a - 1))"
    using pos by (simp add: power_int_def)
  also have "\<dots> \<le> of_int a" using lo by (simp only: of_int_le_iff)
  finally show "2 powi (bitlen a - 1) \<le> (of_int a :: rat)" .
  have "(of_int a :: rat) < of_int (2 ^ nat (bitlen a))"
    using hi by (simp only: of_int_less_iff)
  also have "\<dots> = 2 powi bitlen a"
    using pos by (simp add: power_int_def)
  finally show "(of_int a :: rat) < 2 powi bitlen a" .
qed

lemma expo_bounds:
  assumes "0 < q"
  shows "2 powi expo q \<le> q" and "q < 2 powi (expo q + 1)"
proof -
  obtain a b where ab: "quotient_of q = (a, b)" by (cases "quotient_of q")
  then have b: "0 < b" and q: "q = of_int a / of_int b"
    by (simp_all add: quotient_of_denom_pos quotient_of_div)
  with assms have a: "0 < a" by (simp add: zero_less_divide_iff)
  let ?d = "bitlen a - bitlen b"
  note A = bitlen_powi_bounds [OF a] and B = bitlen_powi_bounds [OF b]
  define la' lb' la lb :: rat where "la' = 2 powi (bitlen a - 1)" and "lb' = 2 powi (bitlen b - 1)"
    and "la = 2 powi bitlen a" and "lb = 2 powi bitlen b"
  have pos: "0 < la'" "0 < lb'" "0 < la" "0 < lb"
    by (simp_all add: la'_def lb'_def la_def lb_def)
  have "?d + 1 = bitlen a - (bitlen b - 1)" "?d - 1 = (bitlen a - 1) - bitlen b" by simp_all
  then have eq: "2 powi (?d + 1) = la / lb'" "2 powi (?d - 1) = la' / lb"
    by (simp_all only: two_powi_diff la'_def lb'_def la_def lb_def)
  have "of_int a * lb' < la * of_int b"
    using A(2) B(1) a b pos unfolding la_def lb'_def by (intro mult_less_le_imp_less) simp_all
  then have "q < la / lb'"
    using b pos by (simp add: q field_simps)
  then have up: "q < 2 powi (?d + 1)" by (simp only: eq)
  have "la' * of_int b < of_int a * lb"
    using A(1) B(2) a b pos unfolding la'_def lb_def by (intro mult_le_less_imp_less) simp_all
  then have "la' / lb < q"
    using b pos by (simp add: q field_simps)
  then have lo: "2 powi (?d - 1) < q" by (simp only: eq)
  show "2 powi expo q \<le> q" "q < 2 powi (expo q + 1)"
    using up lo by (auto simp: expo_def ab Let_def not_le)
qed

lemma expo_unique:
  assumes "2 powi e \<le> q" and "q < 2 powi (e + 1)"
  shows "expo q = e"
proof -
  from assms(1) have pos: "0 < q" using two_powi_pos [of e] by linarith
  from expo_bounds [OF pos] assms
  have "(2::rat) powi e < 2 powi (expo q + 1)" "(2::rat) powi expo q < 2 powi (e + 1)"
    by linarith+
  then show ?thesis by simp
qed

lemma expo_mono:
  assumes "0 < q" and "q \<le> r"
  shows "expo q \<le> expo r"
proof -
  from assms have "0 < r" by simp
  from expo_bounds [OF assms(1)] expo_bounds [OF this] assms(2)
  have "(2::rat) powi expo q < 2 powi (expo r + 1)" by linarith
  then show ?thesis by simp
qed

lemma expo_two_powi [simp]: "expo (2 powi e) = e"
  by (rule expo_unique) simp_all


section \<open>Rounding to binary64\<close>

definition mant_bits :: int where
  "mant_bits = 52"

definition fl_exp :: "rat \<Rightarrow> int" where
  "fl_exp q = max (expo \<bar>q\<bar>) (- 1022)"

definition fl :: "rat \<Rightarrow> rat" where
  "fl q = (if q = 0 then 0 else
     let s = 2 powi (mant_bits - fl_exp q) in of_int (rne (q * s)) / s)"

lemma mant_bits_nonneg [simp]: "0 \<le> mant_bits" "0 \<le> mant_bits + 1"
  by (simp_all add: mant_bits_def)

lemma two_powi_nat: "0 \<le> n \<Longrightarrow> (2::rat) powi n = of_int (2 ^ nat n)"
  by (simp add: power_int_def)

lemma rne_le_two_powi:
  assumes "0 \<le> n" and "v \<le> 2 powi n"
  shows "of_int (rne v) \<le> (2::rat) powi n"
proof -
  from assms have "rne v \<le> 2 ^ nat n" by (intro rne_le_int) (simp add: two_powi_nat)
  then show ?thesis
    unfolding two_powi_nat [OF assms(1)] by (simp only: of_int_le_iff)
qed

lemma rne_ge_two_powi:
  assumes "0 \<le> n" and "2 powi n \<le> v"
  shows "(2::rat) powi n \<le> of_int (rne v)"
proof -
  from assms have "2 ^ nat n \<le> rne v" by (intro rne_ge_int) (simp add: two_powi_nat)
  then show ?thesis
    unfolding two_powi_nat [OF assms(1)] by (simp only: of_int_le_iff)
qed

lemma fl_0 [simp]: "fl 0 = 0"
  by (simp add: fl_def)

lemma fl_exp_minus [simp]: "fl_exp (- q) = fl_exp q"
  by (simp add: fl_exp_def)

lemma fl_minus: "fl (- q) = - fl q"
  by (simp add: fl_def Let_def rne_minus)

lemma fl_exactI:
  assumes "q * 2 powi (mant_bits - fl_exp q) = of_int m"
  shows "fl q = q"
proof (cases "q = 0")
  case False
  have "of_int (rne (q * 2 powi (mant_bits - fl_exp q))) = q * 2 powi (mant_bits - fl_exp q)"
    by (simp only: assms rne_of_int)
  then show ?thesis using False by (simp add: fl_def Let_def)
qed simp

lemma fl_nonneg: "0 \<le> q \<Longrightarrow> 0 \<le> fl q"
  using rne_ge_int [of 0] by (simp add: fl_def Let_def)

lemma fl_pos_upper:
  assumes "0 < q"
  shows "fl q \<le> 2 powi (fl_exp q + 1)"
proof -
  let ?s = "(2::rat) powi (mant_bits - fl_exp q)"
  have "q < 2 powi (expo q + 1)" using assms by (rule expo_bounds)
  also have "\<dots> \<le> 2 powi (fl_exp q + 1)" using assms by (simp add: fl_exp_def)
  finally have "q * ?s < 2 powi (fl_exp q + 1) * ?s" by simp
  also have "\<dots> = 2 powi (fl_exp q + 1 + (mant_bits - fl_exp q))" by (rule two_powi_add [symmetric])
  also have "\<dots> = 2 powi (mant_bits + 1)" by (simp add: add.commute)
  finally have "of_int (rne (q * ?s)) \<le> (2::rat) powi (mant_bits + 1)"
    by (intro rne_le_two_powi) simp_all
  then have "of_int (rne (q * ?s)) / ?s \<le> 2 powi (mant_bits + 1) / ?s"
    by (simp add: divide_right_mono)
  also have "\<dots> = 2 powi (fl_exp q + 1)" by (simp add: two_powi_diff [symmetric] add.commute)
  finally show ?thesis using assms by (simp add: fl_def Let_def)
qed

lemma fl_pos_lower:
  assumes "0 < q" and "- 1022 \<le> expo q"
  shows "2 powi fl_exp q \<le> fl q"
proof -
  let ?s = "(2::rat) powi (mant_bits - fl_exp q)"
  from assms have e: "fl_exp q = expo q" by (simp add: fl_exp_def)
  have "2 powi fl_exp q \<le> q" unfolding e using assms(1) by (rule expo_bounds)
  then have "2 powi fl_exp q * ?s \<le> q * ?s" by simp
  then have "2 powi mant_bits \<le> q * ?s"
    by (simp add: two_powi_add [symmetric])
  then have "2 powi mant_bits \<le> (of_int (rne (q * ?s)) :: rat)"
    by (intro rne_ge_two_powi) simp_all
  then have "2 powi mant_bits / ?s \<le> of_int (rne (q * ?s)) / ?s"
    by (simp add: divide_right_mono)
  moreover have "2 powi mant_bits / ?s = 2 powi fl_exp q" by (simp add: two_powi_diff [symmetric])
  ultimately show ?thesis using assms by (simp add: fl_def Let_def)
qed

lemma fl_mono_pos:
  assumes "0 < q" and "q \<le> r"
  shows "fl q \<le> fl r"
proof -
  from assms have r: "0 < r" by simp
  from assms have le: "fl_exp q \<le> fl_exp r"
    using expo_mono [of q r] by (simp add: fl_exp_def)
  show ?thesis
  proof (cases "fl_exp q = fl_exp r")
    case True
    let ?s = "(2::rat) powi (mant_bits - fl_exp r)"
    from assms(2) have "rne (q * ?s) \<le> rne (r * ?s)" by (intro rne_mono) simp
    then have "(of_int (rne (q * ?s)) :: rat) / ?s \<le> of_int (rne (r * ?s)) / ?s"
      by (simp add: divide_right_mono)
    with assms r True show ?thesis by (simp add: fl_def Let_def)
  next
    case False
    with le have lt: "fl_exp q < fl_exp r" by simp
    then have "- 1022 \<le> expo r" using r by (simp add: fl_exp_def max_def split: if_splits)
    with r have "2 powi fl_exp r \<le> fl r" by (rule fl_pos_lower)
    moreover have "fl q \<le> 2 powi (fl_exp q + 1)" using assms(1) by (rule fl_pos_upper)
    moreover have "(2::rat) powi (fl_exp q + 1) \<le> 2 powi fl_exp r" using lt by simp
    ultimately show ?thesis by linarith
  qed
qed

text \<open>Rounding is monotone.\<close>

lemma fl_mono:
  assumes "q \<le> r"
  shows "fl q \<le> fl r"
proof -
  consider "0 < q" | "q \<le> 0" "0 \<le> r" | "r < 0" by linarith
  then show ?thesis
  proof cases
    case 1
    then show ?thesis using assms by (rule fl_mono_pos)
  next
    case 2
    then have "0 \<le> fl (- q)" "0 \<le> fl r" by (simp_all add: fl_nonneg)
    then show ?thesis by (simp add: fl_minus)
  next
    case 3
    with assms have "fl (- r) \<le> fl (- q)" by (intro fl_mono_pos) simp_all
    then show ?thesis by (simp add: fl_minus)
  qed
qed

text \<open>Dyadic numbers with a significand of at most 53 bits are doubles.\<close>

lemma fl_dyadic_gen:
  assumes "\<bar>m\<bar> < 2 ^ nat (mant_bits + 1)" and "- 1022 - mant_bits \<le> k"
  shows "fl (of_int m * 2 powi k) = of_int m * 2 powi k"
proof (cases "m = 0")
  case False
  let ?q = "of_int m * (2::rat) powi k"
  have pos: "0 < \<bar>?q\<bar>" using False by simp
  have "\<bar>?q\<bar> = of_int \<bar>m\<bar> * 2 powi k" by (simp add: abs_mult)
  also have "\<dots> < of_int (2 ^ nat (mant_bits + 1)) * 2 powi k"
    using assms(1) unfolding of_int_less_iff [symmetric, where ?'a = rat] by simp
  also have "\<dots> = 2 powi (mant_bits + 1 + k)"
    unfolding two_powi_nat [OF mant_bits_nonneg(2), symmetric] by (rule two_powi_add [symmetric])
  finally have "2 powi expo \<bar>?q\<bar> < (2::rat) powi (mant_bits + 1 + k)"
    using expo_bounds(1) [OF pos] by linarith
  then have "expo \<bar>?q\<bar> \<le> mant_bits + k" by simp
  with assms(2) have "0 \<le> k + (mant_bits - fl_exp ?q)" by (simp add: fl_exp_def)
  then obtain n where n: "k + (mant_bits - fl_exp ?q) = int n" using nonneg_int_cases by blast
  have "?q * 2 powi (mant_bits - fl_exp ?q) = of_int m * 2 powi (k + (mant_bits - fl_exp ?q))"
    by (simp add: two_powi_add)
  also have "\<dots> = of_int (m * 2 ^ n)" by (simp only: n power_int_of_nat) simp
  finally show ?thesis by (rule fl_exactI)
qed simp

lemma fl_dyadic:
  "\<bar>m\<bar> < 2 ^ 53 \<Longrightarrow> - 1074 \<le> k \<Longrightarrow> fl (of_int m * 2 powi k) = of_int m * 2 powi k"
  using fl_dyadic_gen [of m k] by (simp add: mant_bits_def)

lemma fl_of_int: "\<bar>n\<bar> < 2 ^ 53 \<Longrightarrow> fl (of_int n) = of_int n"
  using fl_dyadic [of n 0] by simp

lemma fl_numeral [simp]:
  "(numeral k :: int) < 2 ^ 53 \<Longrightarrow> fl (numeral k) = numeral k"
  "(numeral k :: int) < 2 ^ 53 \<Longrightarrow> fl (- numeral k) = - numeral k"
  "fl 1 = 1"
  using fl_of_int [of "numeral k"] fl_of_int [of "- numeral k"] fl_of_int [of 1] by simp_all


section \<open>Float operations of the scripts\<close>

definition float_of_int :: "int \<Rightarrow> rat" where
  "float_of_int n = fl (of_int n)"

definition fadd :: "rat \<Rightarrow> rat \<Rightarrow> rat" where
  "fadd a b = fl (a + b)"

definition fmul :: "rat \<Rightarrow> rat \<Rightarrow> rat" where
  "fmul a b = fl (a * b)"

definition fdiv :: "rat \<Rightarrow> rat \<Rightarrow> rat result" where
  "fdiv a b = (if b = 0 then Inl ZeroDivisionError else Inr (fl (a / b)))"

text \<open>
  The doubles end below \<open>2 ^ 1024\<close>. A quotient of integers whose rounding would
  reach \<open>2 ^ 1024\<close> has no double: \<^verbatim>\<open>a / b\<close> raises \<^verbatim>\<open>OverflowError\<close>. Rounding to
  nearest reaches \<open>2 ^ 1024\<close> from \<open>overflow_threshold\<close> on, half a spacing above
  the largest double.
\<close>

definition max_exp :: int where
  "max_exp = 1024"

definition overflow_threshold :: rat where
  "overflow_threshold = 2 powi max_exp - 2 powi (max_exp - mant_bits - 2)"

definition py_truediv :: "int \<Rightarrow> int \<Rightarrow> rat result" where
  "py_truediv a b =
     (if b = 0 then Inl ZeroDivisionError
      else if overflow_threshold \<le> \<bar>of_int a / of_int b\<bar> then Inl OverflowError
      else Inr (fl (of_int a / of_int b)))"

definition py_int :: "rat \<Rightarrow> int" where
  "py_int q = (if 0 \<le> q then \<lfloor>q\<rfloor> else \<lceil>q\<rceil>)"

lemma float_of_int_numeral [simp]:
  "(numeral k :: int) < 2 ^ 53 \<Longrightarrow> float_of_int (numeral k) = numeral k"
  "(numeral k :: int) < 2 ^ 53 \<Longrightarrow> float_of_int (- numeral k) = - numeral k"
  "float_of_int 0 = 0" "float_of_int 1 = 1"
  by (simp_all add: float_of_int_def)

lemma float_of_int_exact: "\<bar>n\<bar> < 2 ^ 53 \<Longrightarrow> float_of_int n = of_int n"
  by (simp add: float_of_int_def fl_of_int)

text \<open>An interval with integer ends is closed under rounding.\<close>

lemma fl_in_range:
  assumes "of_int a \<le> q" and "q \<le> of_int b" and "\<bar>a\<bar> < 2 ^ 53" and "\<bar>b\<bar> < 2 ^ 53"
  shows "of_int a \<le> fl q \<and> fl q \<le> of_int b"
  using fl_mono [OF assms(1)] fl_mono [OF assms(2)] assms(3,4) by (simp add: fl_of_int)

lemma fl_between:
  assumes "of_int a \<le> q" "q \<le> of_int b" "\<bar>a\<bar> < 2 ^ 53" "\<bar>b\<bar> < 2 ^ 53"
  shows "of_int a \<le> fl q" "fl q \<le> of_int b"
  using fl_in_range [OF assms] by simp_all

lemma max_exp_simps [simp]: "- 1022 \<le> max_exp - 1" "- 1022 < max_exp" "0 \<le> max_exp"
  by (simp_all add: max_exp_def)

lemma overflow_threshold_bounds:
  "2 powi (max_exp - 1) \<le> overflow_threshold" "overflow_threshold < 2 powi max_exp"
proof -
  have "(2::rat) powi (max_exp - mant_bits - 2) \<le> 2 powi (max_exp - 1)"
    by (simp add: mant_bits_def)
  moreover have "(2::rat) powi max_exp = 2 * 2 powi (max_exp - 1)"
    using two_powi_add [of 1 "max_exp - 1"] by simp
  ultimately show "2 powi (max_exp - 1) \<le> overflow_threshold"
    by (simp add: overflow_threshold_def)
  show "overflow_threshold < 2 powi max_exp"
    by (simp add: overflow_threshold_def)
qed


lemma small_below_threshold: "\<bar>q\<bar> \<le> 1024 \<Longrightarrow> \<bar>q\<bar> < overflow_threshold"
proof -
  have "(1024::rat) < 2 powi (max_exp - 1)" by (simp add: max_exp_def)
  with overflow_threshold_bounds(1) show "\<bar>q\<bar> \<le> 1024 \<Longrightarrow> \<bar>q\<bar> < overflow_threshold"
    by linarith
qed

text \<open>Quotients of the size the scripts divide: the dividend within 1024 times the divisor.\<close>

lemma quotient_small:
  fixes a d :: int
  assumes "0 < d" and "\<bar>a div d\<bar> < 1024"
  shows "- (1024 * d) \<le> a" and "a \<le> 1024 * d"
proof -
  note b = div_mult_bounds [OF assms(1), of a]
  from assms(2) have "- 1023 \<le> a div d" "a div d \<le> 1023" by simp_all
  with assms(1) have "- 1023 * d \<le> (a div d) * d" "(a div d) * d \<le> 1023 * d"
    by (simp_all only: mult_le_cancel_right_pos)
  with b assms(1) show "- (1024 * d) \<le> a" and "a \<le> 1024 * d"
    by linarith+
qed

lemma py_truediv_ok [py_ok]:
  assumes "0 < b" and "- (1024 * b) \<le> a" and "a \<le> 1024 * b"
  shows "py_truediv a b = Inr (fl (of_int a / of_int b))"
proof -
  from assms(2) have "of_int (- (1024 * b)) \<le> (of_int a :: rat)" by (simp only: of_int_le_iff)
  moreover from assms(3) have "(of_int a :: rat) \<le> of_int (1024 * b)" by (simp only: of_int_le_iff)
  ultimately have "\<bar>of_int a / of_int b :: rat\<bar> \<le> 1024"
    using assms(1) by (simp add: abs_le_iff pos_divide_le_eq pos_le_divide_eq)
  from small_below_threshold [OF this] assms(1) show ?thesis
    by (simp add: py_truediv_def)
qed

lemma py_truediv_zero [simp]: "py_truediv a 0 = Inl ZeroDivisionError"
  by (simp add: py_truediv_def)

lemma fdiv_ok [py_ok]: "b \<noteq> 0 \<Longrightarrow> fdiv a b = Inr (fl (a / b))"
  by (simp add: fdiv_def)

text \<open>The quotient of a loop index by the loop bound is a float in \<open>[0, 1]\<close>.\<close>

lemma unit_fraction:
  assumes "0 \<le> x" and "x < n"
  shows "0 \<le> fl (of_int x / of_int n)" and "fl (of_int x / of_int n) \<le> 1"
proof -
  from assms have "(0::rat) \<le> of_int x / of_int n" and "of_int x / of_int n \<le> (1::rat)"
    by simp_all
  from fl_mono [OF this(1)] fl_mono [OF this(2)]
  show "0 \<le> fl (of_int x / of_int n)" and "fl (of_int x / of_int n) \<le> 1" by simp_all
qed

section \<open>Truncation\<close>

lemma py_int_of_int [simp]: "py_int (of_int n) = n"
  by (simp add: py_int_def)

lemma py_int_ge: "of_int a \<le> q \<Longrightarrow> a \<le> py_int q"
  by (auto simp: py_int_def le_floor_iff le_ceiling_iff intro: order_trans)

lemma py_int_le: "q \<le> of_int b \<Longrightarrow> py_int q \<le> b"
  by (auto simp: py_int_def floor_le_iff ceiling_le_iff intro: order_trans)

lemma py_int_nonneg: "0 \<le> q \<Longrightarrow> py_int q = \<lfloor>q\<rfloor>"
  by (simp add: py_int_def)

lemma py_int_mono:
  assumes "q \<le> r" shows "py_int q \<le> py_int r"
proof (cases "0 \<le> q")
  case True
  with assms show ?thesis by (simp add: py_int_def floor_mono)
next
  case False
  then have q: "\<lceil>q\<rceil> \<le> 0" by (simp add: ceiling_le_zero)
  show ?thesis
  proof (cases "0 \<le> r")
    case True
    then have "0 \<le> \<lfloor>r\<rfloor>" by simp
    with q have "\<lceil>q\<rceil> \<le> \<lfloor>r\<rfloor>" by (rule order_trans)
    with True False show ?thesis by (simp add: py_int_def)
  next
    case r: False
    with assms False show ?thesis by (simp add: py_int_def ceiling_mono)
  qed
qed

section \<open>Exact cases\<close>

text \<open>
  Quotients by a power of two, and an integer plus such a quotient, are doubles;
  \<^verbatim>\<open>int()\<close> of a non-negative one is the integer quotient rounded down.
\<close>

lemma fl_div_pow2:
  "\<bar>m\<bar> < 2 ^ 53 \<Longrightarrow> k \<le> 1074 \<Longrightarrow> fl (of_int m / 2 ^ k) = of_int m / 2 ^ k"
  using fl_dyadic [of m "- int k"] by (simp add: power_int_minus field_simps)

lemma fl_int_plus_div_pow2:
  assumes "\<bar>n * 2 ^ k + m\<bar> < 2 ^ 53" and "k \<le> 1074"
  shows "fl (of_int n + of_int m / 2 ^ k) = of_int n + of_int m / 2 ^ k"
proof -
  have "of_int n + of_int m / 2 ^ k = (of_int (n * 2 ^ k + m) :: rat) / 2 ^ k"
    by (simp add: field_simps)
  with fl_div_pow2 [OF assms] show ?thesis by simp
qed

lemma py_int_int_plus_div:
  assumes "0 \<le> n * d + m" and "0 < d"
  shows "py_int (of_int n + of_int m / of_int d) = n + m div d"
proof -
  from assms(1) have "(0::rat) \<le> of_int (n * d + m)" by (simp only: of_int_0_le_iff)
  with assms(2) have "(0::rat) \<le> of_int (n * d + m) / of_int d" by (intro divide_nonneg_pos) simp_all
  also have "of_int (n * d + m) / of_int d = (of_int n :: rat) + of_int m / of_int d"
    using assms(2) by (simp add: field_simps)
  finally show ?thesis by (simp add: py_int_nonneg floor_divide_of_int_eq)
qed

section \<open>Integer quotients\<close>

lemma quotient_bounds:
  fixes a d :: int
  assumes "0 < d" and "d \<le> 2 ^ k"
  shows "(of_int (a div d) :: rat) \<le> of_int a / of_int d"
    and "(of_int a :: rat) / of_int d \<le> of_int ((a div d + 1) * 2 ^ k - 1) / 2 ^ k"
proof -
  let ?j = "a div d"
  have "?j * d \<le> a" by (rule div_mult_bounds [OF assms(1)])
  then have "(of_int (?j * d) :: rat) \<le> of_int a" by (simp only: of_int_le_iff)
  with assms(1) show "(of_int ?j :: rat) \<le> of_int a / of_int d"
    by (simp add: pos_le_divide_eq)
  have "a < ?j * d + d" by (rule div_mult_bounds [OF assms(1)])
  then have "a + 1 \<le> (?j + 1) * d" by (simp add: algebra_simps)
  then have "(of_int (a + 1) :: rat) \<le> of_int ((?j + 1) * d)" by (simp only: of_int_le_iff)
  then have le: "(of_int a :: rat) / of_int d \<le> of_int (?j + 1) - 1 / of_int d"
    using assms(1) by (simp add: field_simps)
  have "(of_int d :: rat) \<le> of_int (2 ^ k)" using assms(2) by (simp only: of_int_le_iff)
  then have "(1::rat) / 2 ^ k \<le> 1 / of_int d"
    using assms(1) by (simp add: frac_le)
  with le have "(of_int a :: rat) / of_int d \<le> of_int (?j + 1) - 1 / 2 ^ k" by linarith
  also have "\<dots> = of_int ((?j + 1) * 2 ^ k - 1) / 2 ^ k" by (simp add: field_simps)
  finally show "(of_int a :: rat) / of_int d \<le> of_int ((?j + 1) * 2 ^ k - 1) / 2 ^ k" .
qed

lemma py_int_between:
  assumes "0 \<le> n" and "of_int n \<le> q" and "q < of_int n + 1"
  shows "py_int q = n"
proof -
  from assms(1,2) have "0 \<le> q" by (meson of_int_0_le_iff order_trans)
  with assms(2,3) show ?thesis by (simp add: py_int_nonneg floor_unique)
qed

text \<open>
  \<^verbatim>\<open>int(c + a / d)\<close> with integers \<open>a\<close>, \<open>d\<close>: the division is rounded once, the sum
  once more, and the result is still the integer \<open>c + a div d\<close>.
\<close>

lemma py_int_plus_quotient:
  assumes d: "0 < d" "d \<le> 2 ^ 40" and c: "\<bar>c\<bar> < 2 ^ 10" and j: "\<bar>a div d\<bar> < 2 ^ 10"
    and pos: "0 \<le> c + a div d"
  shows "py_int (fl (of_int c + fl (of_int a / of_int d))) = c + a div d"
proof -
  let ?j = "a div d" and ?q = "fl (of_int a / of_int d)"
  define u :: rat where "u = of_int ((a div d + 1) * 2 ^ 40 - 1) / 2 ^ 40"
  have fu: "fl u = u" unfolding u_def using j by (intro fl_div_pow2) simp_all
  have fj: "fl (of_int ?j) = of_int ?j" using j by (intro fl_of_int) simp
  have fcu: "fl (of_int c + u) = of_int c + u"
    unfolding u_def using c j by (intro fl_int_plus_div_pow2) simp_all
  have fcj: "fl (of_int (c + ?j)) = of_int (c + ?j)" using c j by (intro fl_of_int) simp
  from quotient_bounds [OF d, of a] have "fl (of_int ?j) \<le> ?q" "?q \<le> fl u"
    unfolding u_def by (simp_all only: fl_mono)
  then have "of_int (c + ?j) \<le> of_int c + ?q" "of_int c + ?q \<le> of_int c + u"
    by (simp_all only: fu fj of_int_add add_left_mono)
  then have "fl (of_int (c + ?j)) \<le> fl (of_int c + ?q)" "fl (of_int c + ?q) \<le> fl (of_int c + u)"
    by (simp_all only: fl_mono)
  then have "of_int (c + ?j) \<le> fl (of_int c + ?q)" "fl (of_int c + ?q) \<le> of_int c + u"
    by (simp_all only: fcu fcj)
  moreover have "of_int c + u < of_int (c + ?j) + 1" by (simp add: u_def field_simps)
  ultimately show ?thesis using pos by (intro py_int_between) simp_all
qed

section \<open>The error of one rounding\<close>

text \<open>
  One operation is off by at most half the spacing of the doubles around its
  result, and a value closer than that to a double rounds to it.
\<close>

lemma rne_unique:
  assumes "\<bar>v - of_int m\<bar> < 1/2"
  shows "rne v = m"
proof -
  from rne_error [of v] assms have "\<bar>(of_int (rne v) :: rat) - of_int m\<bar> < 1" by linarith
  then have "\<bar>(of_int (rne v - m) :: rat)\<bar> < of_int 1" by simp
  then have "\<bar>rne v - m\<bar> < 1" by (simp only: of_int_abs [symmetric] of_int_less_iff)
  then show ?thesis by simp
qed

lemma fl_exp_eq:
  assumes "2 powi k \<le> \<bar>q\<bar>" and "\<bar>q\<bar> < 2 powi (k + 1)" and "- 1022 \<le> k"
  shows "fl_exp q = k"
  using assms(3) by (simp add: fl_exp_def expo_unique [OF assms(1,2)])

lemma fl_exp_le:
  assumes "q \<noteq> 0" and "\<bar>q\<bar> < 2 powi (k + 1)" and "- 1022 \<le> k"
  shows "fl_exp q \<le> k"
proof -
  from assms(1) have "0 < \<bar>q\<bar>" by simp
  from expo_bounds(1) [OF this] assms(2) have "(2::rat) powi expo \<bar>q\<bar> < 2 powi (k + 1)"
    by (rule le_less_trans)
  with assms(3) show ?thesis by (simp add: fl_exp_def)
qed

lemma fl_scaled:
  assumes "q \<noteq> 0"
  shows "fl q * 2 powi (mant_bits - fl_exp q) = of_int (rne (q * 2 powi (mant_bits - fl_exp q)))"
  using assms by (simp add: fl_def Let_def)

lemma abs_diff_scale:
  fixes a b s :: rat
  assumes "0 < s"
  shows "\<bar>a - b\<bar> * s = \<bar>a * s - b * s\<bar>"
  using assms by (simp add: left_diff_distrib [symmetric] abs_mult)

lemma two_powi_le_abs_nonzero: "(2::rat) powi k \<le> \<bar>q\<bar> \<Longrightarrow> q \<noteq> 0"
  using two_powi_pos [of k] by (cases "q = 0") (simp_all add: not_le)

lemma half_spacing: "(2::rat) powi (k - mant_bits - 1) * 2 powi (mant_bits - k) = 1/2"
proof -
  have "(2::rat) powi (k - mant_bits - 1) * 2 powi (mant_bits - k)
      = 2 powi ((k - mant_bits - 1) + (mant_bits - k))"
    by (rule two_powi_add [symmetric])
  also have "\<dots> = 1/2" by (simp add: power_int_minus)
  finally show ?thesis .
qed

lemma fl_error:
  assumes "\<bar>q\<bar> < 2 powi (k + 1)" and "- 1022 \<le> k"
  shows "\<bar>fl q - q\<bar> \<le> 2 powi (k - mant_bits - 1)"
proof (cases "q = 0")
  case True
  then show ?thesis by simp
next
  case False
  let ?s = "(2::rat) powi (mant_bits - fl_exp q)"
  have s: "0 < ?s" by simp
  have "\<bar>fl q - q\<bar> * ?s = \<bar>fl q * ?s - q * ?s\<bar>"
    using s by (rule abs_diff_scale)
  also have "\<dots> \<le> 1/2" unfolding fl_scaled [OF False] by (rule rne_error)
  finally have "\<bar>fl q - q\<bar> \<le> (1/2) / ?s" using s by (simp add: pos_le_divide_eq)
  also have "(1/2) / ?s = 2 powi (fl_exp q - mant_bits - 1)"
    using half_spacing [of "fl_exp q"] by (simp add: divide_eq_eq)
  also have "\<dots> \<le> 2 powi (k - mant_bits - 1)"
    using fl_exp_le [OF False assms] by simp
  finally show ?thesis .
qed

text \<open>A value closer to a double than half the spacing of its binade rounds to it.\<close>

lemma fl_near:
  assumes "2 powi k \<le> \<bar>q\<bar>" and "\<bar>q\<bar> < 2 powi (k + 1)" and "- 1022 \<le> k"
    and "\<bar>q - d\<bar> < 2 powi (k - mant_bits - 1)" and "d * 2 powi (mant_bits - k) = of_int m"
  shows "fl q = d"
proof -
  let ?s = "(2::rat) powi (mant_bits - k)"
  from assms(1) have nz: "q \<noteq> 0" by (rule two_powi_le_abs_nonzero)
  have e: "fl_exp q = k" using assms(1-3) by (rule fl_exp_eq)
  have "\<bar>q * ?s - of_int m\<bar> = \<bar>q - d\<bar> * ?s"
    unfolding assms(5) [symmetric] by (rule abs_diff_scale [symmetric]) simp
  also have "\<dots> < 2 powi (k - mant_bits - 1) * ?s"
    using assms(4) by (simp add: mult_strict_right_mono)
  also have "2 powi (k - mant_bits - 1) * ?s = 1/2" by (rule half_spacing)
  finally have "rne (q * ?s) = m" by (rule rne_unique)
  with fl_scaled [OF nz] have "fl q * ?s = d * ?s" by (simp add: e assms(5))
  then show ?thesis by simp
qed


lemma spacing_pow: "(2::rat) powi (int j - mant_bits - 1) = 2 ^ j / 2 ^ 53"
  by (simp add: mant_bits_def power_int_diff)

lemma fl_error_pow:
  assumes "\<bar>q\<bar> < 2 ^ j"
  shows "\<bar>fl q - q\<bar> \<le> 2 ^ j / 2 ^ 54"
proof -
  have "\<bar>q\<bar> < 2 powi (int j - 1 + 1)" using assms by simp
  then have "\<bar>fl q - q\<bar> \<le> 2 powi (int j - 1 - mant_bits - 1)" by (rule fl_error) simp
  also have "\<dots> = 2 ^ j / 2 ^ 54" by (simp add: mant_bits_def power_int_diff)
  finally show ?thesis .
qed

lemma fl_int_near:
  fixes n :: int and j :: nat
  assumes "2 ^ j < n" and "n < 2 ^ Suc j" and "j \<le> 52" and "\<bar>z - of_int n\<bar> < 2 ^ j / 2 ^ 53"
  shows "fl z = of_int n"
proof (rule fl_near [where k = "int j" and m = "n * 2 ^ (52 - j)"])
  have "(2::rat) ^ j / 2 ^ 53 < 1"
    using assms(3) power_strict_increasing [of j 53 "2::rat"] by simp
  with assms(4) have z: "of_int n - 1 < z" "z < of_int n + 1" by linarith+
  from assms(1) have "2 ^ j + 1 \<le> n" by simp
  then have "(of_int (2 ^ j + 1) :: rat) \<le> of_int n" by (simp only: of_int_le_iff)
  with z(1) have lo: "2 ^ j < z" by simp
  from assms(2) have "n + 1 \<le> 2 ^ Suc j" by simp
  then have "(of_int (n + 1) :: rat) \<le> of_int (2 ^ Suc j)" by (simp only: of_int_le_iff)
  with z(2) have hi: "z < 2 ^ Suc j" by simp
  from lo have "0 < z" by (rule less_trans [rotated]) simp
  with lo hi show "2 powi int j \<le> \<bar>z\<bar>" "\<bar>z\<bar> < 2 powi (int j + 1)"
    by (simp_all add: power_int_add)
  show "- 1022 \<le> int j" by simp
  show "\<bar>z - of_int n\<bar> < 2 powi (int j - mant_bits - 1)"
    using assms(4) by (simp only: spacing_pow)
  have "(2::rat) powi (mant_bits - int j) = 2 ^ (52 - j)"
    using assms(3) by (simp add: mant_bits_def power_int_def nat_diff_distrib)
  then show "(of_int n :: rat) * 2 powi (mant_bits - int j) = of_int (n * 2 ^ (52 - j))" by simp
qed

lemma fl_dyadic_le:
  assumes "\<bar>m\<bar> \<le> 2 ^ 53" and "- 1074 \<le> k"
  shows "fl (of_int m * 2 powi k) = of_int m * 2 powi k"
proof (cases "\<bar>m\<bar> < 2 ^ 53")
  case True
  then show ?thesis using assms(2) by (rule fl_dyadic)
next
  case False
  with assms(1) have "m = 2 ^ 53 \<or> m = - (2 ^ 53)" by linarith
  moreover have "(2::rat) ^ 53 * 2 powi k = 2 powi (k + 53)"
    by (simp add: power_int_add)
  moreover have "fl (of_int 1 * 2 powi (k + 53)) = of_int 1 * 2 powi (k + 53)"
    "fl (of_int (- 1) * 2 powi (k + 53)) = of_int (- 1) * 2 powi (k + 53)"
    using assms(2) by (intro fl_dyadic; simp)+
  ultimately show ?thesis by auto
qed

lemma fl_exp_ge:
  assumes "2 powi k \<le> \<bar>q\<bar>"
  shows "k \<le> fl_exp q"
proof -
  from assms have "0 < \<bar>q\<bar>" using two_powi_pos [of k] by linarith
  from expo_bounds(2) [OF this] assms have "(2::rat) powi k < 2 powi (expo \<bar>q\<bar> + 1)"
    by (rule le_less_trans [rotated])
  then show ?thesis by (simp add: fl_exp_def)
qed

text \<open>Halving a double is exact (away from the smallest subnormals).\<close>

lemma fl_half_pos:
  assumes "0 < q" and "2 powi (- 1021) \<le> q"
  shows "fl (fl q / 2) = fl q / 2"
proof -
  let ?e = "fl_exp q" and ?m = "rne (q * 2 powi (mant_bits - fl_exp q))"
  let ?s = "(2::rat) powi (mant_bits - fl_exp q)"
  from assms(1) have nz: "q \<noteq> 0" by simp
  have e: "- 1021 \<le> ?e" using assms by (intro fl_exp_ge) simp
  have m: "of_int ?m = fl q * ?s" using fl_scaled [OF nz] by simp
  have "0 \<le> fl q" using assms(1) by (intro fl_nonneg) simp
  then have "0 \<le> fl q * ?s" by simp
  moreover have "fl q * ?s \<le> 2 powi (?e + 1) * ?s"
    using fl_pos_upper [OF assms(1)] by (simp add: mult_right_mono)
  moreover have "(2::rat) powi (?e + 1) * ?s = 2 ^ 53"
    by (simp add: two_powi_add [symmetric] mant_bits_def)
  ultimately have "(0::rat) \<le> of_int ?m" "(of_int ?m :: rat) \<le> of_int (2 ^ 53)"
    by (simp_all add: m)
  then have "\<bar>?m\<bar> \<le> 2 ^ 53" by (simp only: of_int_le_iff of_int_0_le_iff abs_of_nonneg)
  then have "fl (of_int ?m * 2 powi (?e - mant_bits - 1)) = of_int ?m * 2 powi (?e - mant_bits - 1)"
    using e by (intro fl_dyadic_le) (simp_all add: mant_bits_def)
  moreover have "of_int ?m * 2 powi (?e - mant_bits - 1) = fl q / 2"
  proof -
    have "?s * 2 powi (?e - mant_bits - 1) = 1/2"
      using half_spacing [of ?e] by (simp add: mult.commute)
    then show ?thesis by (simp add: m mult.assoc)
  qed
  ultimately show ?thesis by simp
qed

lemma fl_half:
  assumes "q = 0 \<or> 2 powi (- 1021) \<le> \<bar>q\<bar>"
  shows "fl (fl q / 2) = fl q / 2"
proof (cases "q = 0")
  case True
  then show ?thesis by simp
next
  case False
  with assms have a: "2 powi (- 1021) \<le> \<bar>q\<bar>" by simp
  show ?thesis
  proof (cases "0 < q")
    case True
    with a show ?thesis by (intro fl_half_pos) simp_all
  next
    case neg: False
    with False a have "0 < - q" "2 powi (- 1021) \<le> - q" by simp_all
    from fl_half_pos [OF this] have "fl (- (fl q / 2)) = - (fl q / 2)"
      by (simp add: fl_minus)
    then show ?thesis by (simp add: fl_minus)
  qed
qed

section \<open>Overflow\<close>

lemma rne_half_odd: "odd n \<Longrightarrow> rne (of_int n + 1/2) = n + 1"
proof -
  have "\<lfloor>of_int n + 1/2 :: rat\<rfloor> = n" by (rule floor_unique) simp_all
  moreover assume "odd n"
  ultimately show ?thesis by (simp add: rne_def)
qed

lemma overflow_threshold_scaled:
  "overflow_threshold * 2 powi (mant_bits - (max_exp - 1))
     = of_int (2 ^ nat (mant_bits + 1) - 1) + 1/2"
proof -
  have "(2::rat) powi max_exp * 2 powi (mant_bits - (max_exp - 1)) = 2 powi (mant_bits + 1)"
    unfolding two_powi_add [symmetric] by simp
  moreover have "(2::rat) powi (max_exp - mant_bits - 2) * 2 powi (mant_bits - (max_exp - 1))
      = 2 powi (- 1)"
    unfolding two_powi_add [symmetric] by simp
  ultimately show ?thesis
    by (simp add: overflow_threshold_def left_diff_distrib two_powi_nat power_int_minus)
qed

text \<open>The threshold is half way between the largest double and \<open>2 ^ 1024\<close>: it rounds up.\<close>

lemma fl_overflow_threshold: "fl overflow_threshold = 2 powi max_exp"
proof -
  let ?s = "(2::rat) powi (mant_bits - (max_exp - 1))"
  from overflow_threshold_bounds have pos: "0 < overflow_threshold"
    using two_powi_pos [of "max_exp - 1"] by linarith
  then have e: "fl_exp overflow_threshold = max_exp - 1"
    using overflow_threshold_bounds by (intro fl_exp_eq) simp_all
  have "rne (overflow_threshold * ?s) = 2 ^ nat (mant_bits + 1)"
    unfolding overflow_threshold_scaled by (subst rne_half_odd) (simp_all add: mant_bits_def)
  then have "fl overflow_threshold = of_int (2 ^ nat (mant_bits + 1)) / ?s"
    using pos by (simp add: fl_def e)
  also have "\<dots> = 2 powi (mant_bits + 1) / ?s"
    by (simp add: two_powi_nat)
  also have "\<dots> = 2 powi max_exp"
    unfolding two_powi_diff [symmetric] by simp
  finally show ?thesis .
qed

lemma fl_abs: "fl \<bar>q\<bar> = \<bar>fl q\<bar>"
proof (cases "0 \<le> q")
  case True
  then show ?thesis using fl_nonneg [of q] by simp
next
  case False
  then have "0 \<le> - q" by simp
  from fl_nonneg [OF this] False show ?thesis by (simp add: fl_minus)
qed

lemma fl_below_threshold:
  assumes "\<bar>q\<bar> < overflow_threshold"
  shows "\<bar>fl q\<bar> < 2 powi max_exp"
proof -
  from assms overflow_threshold_bounds(2) have "\<bar>q\<bar> < 2 powi (max_exp - 1 + 1)" by simp
  then have "\<bar>fl q - q\<bar> \<le> 2 powi (max_exp - 1 - mant_bits - 1)"
    by (rule fl_error) simp
  moreover have "max_exp - 1 - mant_bits - 1 = max_exp - mant_bits - 2" by simp
  ultimately have "\<bar>fl q\<bar> \<le> \<bar>q\<bar> + 2 powi (max_exp - mant_bits - 2)" by simp
  with assms show ?thesis by (simp add: overflow_threshold_def)
qed

lemma fl_overflows_iff: "2 powi max_exp \<le> \<bar>fl q\<bar> \<longleftrightarrow> overflow_threshold \<le> \<bar>q\<bar>"
proof
  assume "overflow_threshold \<le> \<bar>q\<bar>"
  then have "fl overflow_threshold \<le> fl \<bar>q\<bar>" by (rule fl_mono)
  then show "2 powi max_exp \<le> \<bar>fl q\<bar>" by (simp add: fl_overflow_threshold fl_abs)
next
  assume "2 powi max_exp \<le> \<bar>fl q\<bar>"
  with fl_below_threshold [of q] show "overflow_threshold \<le> \<bar>q\<bar>" by fastforce
qed

lemma overflow_threshold_int: "overflow_threshold = of_int (2 ^ 1024 - 2 ^ 970)"
  by (simp add: overflow_threshold_def max_exp_def mant_bits_def)

lemma max_double_int: "(2::rat) powi max_exp = 2 ^ 1024"
  by (simp add: max_exp_def)

lemma abs_quotient_ge:
  fixes a b t :: int
  assumes "b \<noteq> 0"
  shows "(of_int t :: rat) \<le> \<bar>of_int a / of_int b\<bar> \<longleftrightarrow> t * \<bar>b\<bar> \<le> \<bar>a\<bar>"
proof -
  from assms have "(0::rat) < of_int \<bar>b\<bar>" by simp
  then have "(of_int t :: rat) \<le> of_int \<bar>a\<bar> / of_int \<bar>b\<bar>
      \<longleftrightarrow> (of_int t :: rat) * of_int \<bar>b\<bar> \<le> of_int \<bar>a\<bar>"
    by (rule pos_le_divide_eq)
  also have "\<dots> \<longleftrightarrow> t * \<bar>b\<bar> \<le> \<bar>a\<bar>"
    by (simp only: of_int_mult [symmetric] of_int_le_iff)
  finally show ?thesis by (simp add: abs_divide)
qed

section \<open>Truncation and comparison of rounded values\<close>

text \<open>
  \<^verbatim>\<open>int()\<close> of a rounded value: when the exact value lies between an integer
  \<open>n\<close> (up to a computation error below half the spacing of doubles there)
  and \<open>n + 1 - 2^-40\<close>, the result is \<open>n\<close>.
\<close>

lemma py_int_fl_window:
  fixes n :: int and j :: nat
  assumes n: "2 ^ j < n" "n < 2 ^ Suc j" and j: "j \<le> 11"
    and lo: "of_int n - e \<le> z" and e: "e < 2 ^ j / 2 ^ 53"
    and hi: "z \<le> of_int n + 1 - 1 / 2 ^ 40"
  shows "py_int (fl z) = n"
proof (rule py_int_between)
  have "(2::int) ^ Suc j \<le> 2 ^ 12" using j by (intro power_increasing) simp_all
  with n have b: "0 < n" "n < 2 ^ 12"
    using zero_less_power [of "2::int" j] by linarith+
  then show "0 \<le> n" by simp
  show "of_int n \<le> fl z"
  proof (cases "of_int n \<le> z")
    case True
    then have "fl (of_int n) \<le> fl z" by (rule fl_mono)
    with b show ?thesis by (simp add: fl_of_int)
  next
    case False
    with lo e have "\<bar>z - of_int n\<bar> < 2 ^ j / 2 ^ 53" by linarith
    with n j have "fl z = of_int n" by (intro fl_int_near) simp_all
    then show ?thesis by simp
  qed
  define u :: rat where "u = of_int ((n + 1) * 2 ^ 40 - 1) / 2 ^ 40"
  have "fl u = u" unfolding u_def using b by (intro fl_div_pow2) simp_all
  moreover have "z \<le> u" using hi by (simp add: u_def field_simps)
  ultimately have "fl z \<le> u" using fl_mono [of z u] by simp
  also have "u < of_int n + 1" by (simp add: u_def field_simps)
  finally show "fl z < of_int n + 1" .
qed

text \<open>Rounding keeps two numbers of \<open>[0, 1]\<close> apart that differ by \<open>2^-50\<close>.\<close>

lemma fl_less:
  assumes "0 \<le> q" and "q + 1 / 2 ^ 50 \<le> r" and "r \<le> 1"
  shows "fl q < fl r"
proof -
  define a where "a = \<lceil>q * 2 ^ 51\<rceil>"
  have a: "q * 2 ^ 51 \<le> of_int a" "of_int a < q * 2 ^ 51 + 1"
    unfolding a_def by linarith+
  have "(0::rat) < 1 / 2 ^ 50" by simp
  with assms(2,3) have "q \<le> 1" by linarith
  with assms(1) a have "0 \<le> a" "a \<le> 2 ^ 51"
    unfolding a_def by (simp_all add: ceiling_le_iff mult_le_one zero_le_ceiling)
  then have ex: "fl (of_int a / 2 ^ 51) = of_int a / 2 ^ 51"
    "fl (of_int (a + 1) / 2 ^ 51) = of_int (a + 1) / 2 ^ 51"
    by (intro fl_div_pow2; simp)+
  from a have "q \<le> of_int a / 2 ^ 51" "of_int (a + 1) / 2 ^ 51 \<le> q + 2 / 2 ^ 51"
    by (simp_all add: field_simps)
  with assms(2) have "q \<le> of_int a / 2 ^ 51" "of_int (a + 1) / 2 ^ 51 \<le> r" by simp_all
  then have "fl q \<le> of_int a / 2 ^ 51" "of_int (a + 1) / 2 ^ 51 \<le> fl r"
    using fl_mono [of q "of_int a / 2 ^ 51"] fl_mono [of "of_int (a + 1) / 2 ^ 51" r]
    by (simp_all only: ex)
  moreover have "(of_int a :: rat) / 2 ^ 51 < of_int (a + 1) / 2 ^ 51"
    by (simp add: divide_strict_right_mono)
  ultimately show ?thesis by linarith
qed

lemma fl_le_iff:
  assumes "0 \<le> q" "q \<le> 1" "0 \<le> r" "r \<le> 1" and "r < q \<Longrightarrow> r + 1 / 2 ^ 50 \<le> q"
  shows "fl q \<le> fl r \<longleftrightarrow> q \<le> r"
proof (cases "q \<le> r")
  case True
  then show ?thesis by (simp add: fl_mono)
next
  case False
  with assms have "fl r < fl q" by (intro fl_less) simp_all
  with False show ?thesis by simp
qed

text \<open>
  \<^verbatim>\<open>int(z)\<close> for a computed \<open>z\<close> within \<open>e\<close> of \<open>c + a / d\<close>: the integer
  \<open>c + a div d\<close>, when \<open>e\<close> is small against \<open>1 / d\<close> and, in case the quotient
  is an integer, below half the spacing of the doubles there.
\<close>

lemma py_int_fl_quotient:
  fixes c a d :: int and j :: nat
  assumes d: "0 < d" "d \<le> 2 ^ 38"
    and n: "2 ^ j < c + a div d" "c + a div d < 2 ^ Suc j" "j \<le> 11"
    and z: "\<bar>z - (of_int c + of_int a / of_int d)\<bar> \<le> e" and e: "e \<le> 1 / 2 ^ 40"
    and exact: "d dvd a \<Longrightarrow> e < 2 ^ j / 2 ^ 53"
  shows "py_int (fl z) = c + a div d"
proof -
  let ?n = "c + a div d"
  from quotient_bounds [OF d, of a]
  have q: "(of_int (a div d) :: rat) \<le> of_int a / of_int d"
    "(of_int a :: rat) / of_int d \<le> of_int (a div d) + 1 - 1 / 2 ^ 38"
    by (simp_all add: field_simps)
  from z q(2) e have hi: "z \<le> of_int ?n + 1 - 1 / 2 ^ 40" by (simp add: abs_le_iff)
  show ?thesis
  proof (cases "d dvd a")
    case True
    from z q(1) have "of_int ?n - e \<le> z" by (simp add: abs_le_iff)
    with n exact [OF True] hi show ?thesis by (intro py_int_fl_window [where e = e and j = j])
  next
    case False
    then have "a mod d \<noteq> 0" by (simp add: dvd_eq_mod_eq_0)
    with pos_mod_sign [OF d(1), of a] have "1 \<le> a mod d" by linarith
    moreover have "a = (a div d) * d + a mod d" by simp
    ultimately have "(a div d) * d + 1 \<le> a" by linarith
    then have "(of_int ((a div d) * d + 1) :: rat) \<le> of_int a" by (simp only: of_int_le_iff)
    then have "(of_int ((a div d) * d + 1) :: rat) / of_int d \<le> of_int a / of_int d"
      using d(1) by (intro divide_right_mono) simp_all
    then have "(of_int (a div d) :: rat) + 1 / of_int d \<le> of_int a / of_int d"
      using d(1) by (simp add: add_divide_distrib)
    moreover have "(1::rat) / 2 ^ 38 \<le> 1 / of_int d"
    proof -
      from d(2) have "(of_int d :: rat) \<le> of_int (2 ^ 38)" by (simp only: of_int_le_iff)
      with d(1) show ?thesis by (simp add: frac_le)
    qed
    ultimately have "of_int ?n + 1 / 2 ^ 38 \<le> of_int c + (of_int a :: rat) / of_int d" by simp
    with z e have "of_int ?n - 0 \<le> z" by (simp add: abs_le_iff)
    with n hi show ?thesis by (intro py_int_fl_window [where e = 0 and j = j]) simp_all
  qed
qed

section \<open>Accumulated errors\<close>

lemma abs_error_scale:
  fixes c :: rat
  assumes "\<bar>f - q\<bar> \<le> e0" and "\<bar>p - c * f\<bar> \<le> e1"
  shows "\<bar>p - c * q\<bar> \<le> \<bar>c\<bar> * e0 + e1"
proof -
  have "p - c * q = (p - c * f) + c * (f - q)" by (simp add: algebra_simps)
  then have "\<bar>p - c * q\<bar> \<le> \<bar>p - c * f\<bar> + \<bar>c * (f - q)\<bar>" by (simp only: abs_triangle_ineq)
  also have "\<bar>c * (f - q)\<bar> = \<bar>c\<bar> * \<bar>f - q\<bar>" by (rule abs_mult)
  finally show ?thesis
    using assms mult_left_mono [of "\<bar>f - q\<bar>" e0 "\<bar>c\<bar>"] by linarith
qed

lemma abs_error_add:
  fixes a b s :: rat
  assumes "\<bar>a - a'\<bar> \<le> e1" and "\<bar>b - b'\<bar> \<le> e2" and "\<bar>s - (a + b)\<bar> \<le> e3"
  shows "\<bar>s - (a' + b')\<bar> \<le> e1 + e2 + e3"
  using assms by linarith

lemma abs_error_upper:
  fixes a b :: rat
  shows "\<bar>a - b\<bar> \<le> e \<Longrightarrow> b \<le> c \<Longrightarrow> a \<le> c + e"
  by linarith

lemma fl_near_1_2:
  assumes "1 \<le> q" and "q < 2" and "\<bar>q - of_int m / 2 ^ 52\<bar> < 1 / 2 ^ 53"
  shows "fl q = of_int m / 2 ^ 52"
proof (rule fl_near [where k = 0 and m = m])
  from assms(1,2) show "2 powi 0 \<le> \<bar>q\<bar>" "\<bar>q\<bar> < 2 powi (0 + 1)" by simp_all
  from assms(3) show "\<bar>q - of_int m / 2 ^ 52\<bar> < 2 powi (0 - mant_bits - 1)"
    by (simp add: mant_bits_def power_int_minus)
  show "(of_int m :: rat) / 2 ^ 52 * 2 powi (mant_bits - 0) = of_int m"
    by (simp add: mant_bits_def)
qed simp

section \<open>Fractions of loop indices\<close>

lemma sum_fractions:
  fixes x y w h :: int
  assumes "0 < w" and "0 < h"
  shows "(of_int x :: rat) / of_int w + of_int y / of_int h
    = of_int (x * h + y * w) / of_int (w * h)"
  using assms by (simp add: field_simps)

lemma unit_fraction_bounds:
  assumes "0 \<le> x" and "x < n" and "n \<le> 2 ^ 38"
  shows "\<bar>fl (of_int x / of_int n) - of_int x / of_int n\<bar> \<le> 1 / 2 ^ 54"
    and "0 \<le> fl (of_int x / of_int n)" and "fl (of_int x / of_int n) \<le> 1 - 1 / 2 ^ 38"
    and "x = 0 \<or> 1 / 2 ^ 38 \<le> fl (of_int x / of_int n)"
proof -
  let ?q = "(of_int x :: rat) / of_int n"
  from assms have n: "0 < n" by simp
  from assms have q: "0 \<le> ?q" "?q < 1" by simp_all
  then show "\<bar>fl ?q - ?q\<bar> \<le> 1 / 2 ^ 54" using fl_error_pow [of ?q 0] by simp
  from q show "0 \<le> fl ?q" by (intro fl_nonneg)
  from assms have "x div n = 0" by simp
  with quotient_bounds(2) [OF n assms(3), of x] have "?q \<le> of_int (2 ^ 38 - 1) / 2 ^ 38" by simp
  then have "fl ?q \<le> fl (of_int (2 ^ 38 - 1) / 2 ^ 38)" by (rule fl_mono)
  also have "\<dots> = of_int (2 ^ 38 - 1) / 2 ^ 38" by (intro fl_div_pow2) simp_all
  finally show "fl ?q \<le> 1 - 1 / 2 ^ 38" by simp
  show "x = 0 \<or> 1 / 2 ^ 38 \<le> fl ?q"
  proof (cases "x = 0")
    case False
    with assms(1) have "1 \<le> x" by simp
    then have "(1::rat) \<le> of_int x" by simp
    moreover from assms(3) have "(of_int n :: rat) \<le> of_int (2 ^ 38)" by (simp only: of_int_le_iff)
    ultimately have "(1::rat) / 2 ^ 38 \<le> ?q" using n by (intro frac_le) simp_all
    then have "fl (of_int 1 / 2 ^ 38) \<le> fl ?q" using fl_mono by simp
    moreover have "fl (of_int 1 / 2 ^ 38) = of_int 1 / 2 ^ 38" by (intro fl_div_pow2) simp_all
    ultimately show ?thesis by simp
  qed simp
qed

text \<open>Comparing two rounded fractions is comparing the fractions.\<close>

lemma fl_le_fractions:
  fixes a b x n :: int
  assumes "0 \<le> a" "a \<le> b" "0 < b" "0 \<le> x" "x \<le> n" "0 < n" "b * n \<le> 2 ^ 50"
  shows "fl (of_int a / of_int b) \<le> fl (of_int x / of_int n) \<longleftrightarrow> a * n \<le> x * b"
proof -
  let ?q = "(of_int a :: rat) / of_int b" and ?r = "(of_int x :: rat) / of_int n"
  have le: "?q \<le> ?r \<longleftrightarrow> a * n \<le> x * b"
  proof -
    have "?q \<le> ?r \<longleftrightarrow> (of_int (a * n) :: rat) \<le> of_int (x * b)"
      using assms(3,6) by (simp add: field_simps)
    then show ?thesis by (simp only: of_int_le_iff)
  qed
  have gap: "?r + 1 / 2 ^ 50 \<le> ?q" if "?r < ?q"
  proof -
    from that le have "x * b + 1 \<le> a * n" by simp
    then have "(of_int (x * b + 1) :: rat) \<le> of_int (a * n)" by (simp only: of_int_le_iff)
    then have "(of_int (x * b + 1) :: rat) / of_int (b * n) \<le> of_int (a * n) / of_int (b * n)"
      using assms(3,6) by (intro divide_right_mono) simp_all
    moreover have "(of_int (x * b + 1) :: rat) / of_int (b * n) = ?r + 1 / of_int (b * n)"
      "(of_int (a * n) :: rat) / of_int (b * n) = ?q"
      using assms(3,6) by (simp_all add: add_divide_distrib)
    ultimately have "?r + 1 / of_int (b * n) \<le> ?q" by simp
    moreover have "(1::rat) / 2 ^ 50 \<le> 1 / of_int (b * n)"
    proof -
      from assms(7) have "(of_int (b * n) :: rat) \<le> of_int (2 ^ 50)" by (simp only: of_int_le_iff)
      moreover from assms(3,6) have "(0::rat) < of_int (b * n)" by simp
      ultimately show ?thesis by (intro frac_le) simp_all
    qed
    ultimately show ?thesis by linarith
  qed
  have "fl ?q \<le> fl ?r \<longleftrightarrow> ?q \<le> ?r"
    using assms gap by (intro fl_le_iff) simp_all
  with le show ?thesis by simp
qed

section \<open>Properties\<close>

text \<open>
  Rounding to the nearest double is monotone: a larger exact result never
  rounds to a smaller float. With exactness on integers this is what keeps
  every channel of the scripts inside its range.
\<close>

theorem fl_monotone: "q \<le> r \<Longrightarrow> fl q \<le> fl r"
  by (rule fl_mono)

theorem fl_monotone_witness: "(1/3::rat) \<le> 1/2 \<and> fl (1/3) \<le> fl (1/2)"
  using fl_monotone [of "1/3" "1/2"] by simp

text \<open>
  A number \<open>m * 2^k\<close> with \<open>\<bar>m\<bar> < 2^53\<close> and \<open>k \<ge> -1074\<close> is a double:
  rounding returns it unchanged. In particular the integers of the scripts
  and the quotients \<open>x / width\<close> for a width that is a power of two are exact.
\<close>

theorem fl_exact_dyadic:
  assumes "\<bar>m\<bar> < 2 ^ 53" and "- 1074 \<le> k"
  shows "fl (of_int m * 2 powi k) = of_int m * 2 powi k"
  using assms by (rule fl_dyadic)

theorem fl_exact_dyadic_witness: "fl (3 / 16) = 3 / 16"
  using fl_exact_dyadic [of 3 "- 4"] by (simp add: power_int_minus)

text \<open>
  \<^verbatim>\<open>int(c + a / d)\<close> for integers \<open>a\<close> and \<open>d\<close>: the division does not raise for
  a positive divisor, and although the quotient and the sum are both rounded
  the result is the integer \<open>c + a div d\<close>, for divisors up to \<open>2^40\<close> and
  results of up to ten bits.
\<close>

theorem truediv_then_int:
  assumes "0 < d" and "d \<le> 2 ^ 40" and "\<bar>c\<bar> < 2 ^ 10" and "\<bar>a div d\<bar> < 2 ^ 10"
    and "0 \<le> c + a div d"
  shows "\<exists>q. py_truediv a d = Inr q \<and> py_int (fadd (float_of_int c) q) = c + a div d"
proof -
  from assms(4) have "\<bar>a div d\<bar> < 1024" by simp
  note small = quotient_small [OF assms(1) this]
  from assms py_int_plus_quotient [OF assms] show ?thesis
    by (simp add: py_truediv_ok [OF assms(1) small] fadd_def float_of_int_exact)
qed

theorem truediv_then_int_witness:
  "\<exists>q. py_truediv (- 1581) 32 = Inr q \<and> py_int (fadd (float_of_int 126) q) = 76"
  using truediv_then_int [of 32 126 "- 1581"] by simp

text \<open>
  One rounding is off by at most half the spacing of the doubles: for
  \<open>\<bar>q\<bar> < 2^(k+1)\<close> the error is at most \<open>2^(k-53)\<close>.
\<close>

theorem fl_error_bound:
  assumes "\<bar>q\<bar> < 2 powi (k + 1)" and "- 1022 \<le> k"
  shows "\<bar>fl q - q\<bar> \<le> 2 powi (k - 53)"
  using fl_error [OF assms] by (simp add: mant_bits_def)

theorem fl_error_bound_witness: "\<bar>fl (1 / 3) - 1 / 3\<bar> \<le> 2 powi (- 55)"
  using fl_error_bound [of "1 / 3" "- 2"] by (simp add: power_int_minus)

text \<open>
  Comparing two rounded fractions of \<open>[0, 1]\<close> is comparing the fractions,
  as long as the product of the denominators is at most \<open>2^50\<close>: rounding
  never merges nor swaps them.
\<close>

theorem fl_compare_fractions:
  fixes a b x n :: int
  assumes "0 \<le> a" and "a \<le> b" and "0 < b" and "0 \<le> x" and "x \<le> n" and "0 < n"
    and "b * n \<le> 2 ^ 50"
  shows "fl (of_int a / of_int b) \<le> fl (of_int x / of_int n) \<longleftrightarrow> a * n \<le> x * b"
  using assms by (rule fl_le_fractions)

theorem fl_compare_fractions_witness: "\<not> fl (3 / 10) \<le> fl (14 / 48) \<and> fl (3 / 10) \<le> fl (15 / 48)"
  using fl_compare_fractions [of 3 10 14 48] fl_compare_fractions [of 3 10 15 48] by simp

text \<open>
  Halving a double is exact: \<^verbatim>\<open>v / 2\<close> for a float \<open>v\<close> that is zero or at
  least \<open>2^-1021\<close> in absolute value is not rounded.
\<close>

theorem fl_half_exact:
  assumes "q = 0 \<or> 2 powi (- 1021) \<le> \<bar>q\<bar>"
  shows "fdiv (fl q) (float_of_int 2) = Inr (fl q / 2)"
  using fl_half [OF assms] by (simp add: fdiv_def)

theorem fl_half_exact_witness: "fdiv (fl (1 / 3)) (float_of_int 2) = Inr (fl (1 / 3) / 2)"
proof -
  have "(2::rat) powi (- 1021) \<le> 2 powi (- 2)" by (simp only: two_powi_le_iff)
  also have "(2::rat) powi (- 2) \<le> \<bar>1 / 3\<bar>" by (simp add: power_int_minus)
  finally show ?thesis by (intro fl_half_exact) simp
qed

text \<open>
  True division of integers, \<^verbatim>\<open>a / b\<close>, on all integers: it raises
  \<^verbatim>\<open>ZeroDivisionError\<close> exactly for the divisor 0 and \<^verbatim>\<open>OverflowError\<close> exactly
  when the quotient rounded to nearest would reach \<open>2 ^ 1024\<close>, which is when
  \<open>\<bar>a\<bar>\<close> is at least \<open>(2 ^ 1024 - 2 ^ 970) * \<bar>b\<bar>\<close>; every value it returns is the
  rounded quotient and lies below \<open>2 ^ 1024\<close>, so it is a finite double.
\<close>

theorem true_division_overflow:
  "(py_truediv a b = Inl OverflowError \<longleftrightarrow> b \<noteq> 0 \<and> (2 ^ 1024 - 2 ^ 970) * \<bar>b\<bar> \<le> \<bar>a\<bar>)
   \<and> (py_truediv a b = Inl OverflowError
        \<longleftrightarrow> b \<noteq> 0 \<and> 2 ^ 1024 \<le> \<bar>fl (of_int a / of_int b)\<bar>)
   \<and> (py_truediv a b = Inl ZeroDivisionError \<longleftrightarrow> b = 0)
   \<and> (\<forall>q. py_truediv a b = Inr q \<longrightarrow> q = fl (of_int a / of_int b) \<and> \<bar>q\<bar> < 2 ^ 1024)"
proof (cases "b = 0")
  case True
  then show ?thesis by simp
next
  case False
  note iff = fl_overflows_iff [of "of_int a / of_int b", unfolded max_double_int]
  from False iff abs_quotient_ge [OF False, of "2 ^ 1024 - 2 ^ 970" a]
  show ?thesis
    unfolding py_truediv_def overflow_threshold_int [symmetric]
    by (auto simp: not_le)
qed

theorem true_division_overflow_witness:
  "py_truediv (2 ^ 1024) 1 = Inl OverflowError
   \<and> py_truediv (2 ^ 1024 - 2 ^ 970) 1 = Inl OverflowError
   \<and> py_truediv (2 ^ 1024 - 2 ^ 970 - 1) 1 \<noteq> Inl OverflowError
   \<and> py_truediv 1 0 = Inl ZeroDivisionError"
  using true_division_overflow [of "2 ^ 1024" 1]
    true_division_overflow [of "2 ^ 1024 - 2 ^ 970" 1]
    true_division_overflow [of "2 ^ 1024 - 2 ^ 970 - 1" 1]
  by simp

end
