(* ===== verification/Py_Str.thy ===== *)
theory Py_Str
  imports Icon_Prelude
begin

text \<open>
  The decimal text an f-string puts for an integer: \<open>py_str\<close> is \<^verbatim>\<open>str\<close> on
  integers, built from \<open>digits\<close>, the digits of a natural number, most
  significant first. \<open>decimal_value\<close> reads such a text back.
\<close>

definition digit_char :: "nat \<Rightarrow> char" where
  "digit_char n = ''0123456789'' ! n"

fun digits :: "nat \<Rightarrow> string" where
  "digits n = (if n < 10 then [digit_char n] else digits (n div 10) @ [digit_char (n mod 10)])"

definition py_str :: "int \<Rightarrow> string" where
  "py_str i = (if i < 0 then CHR ''-'' # digits (nat (- i)) else digits (nat i))"

text \<open>Reading decimal digits, to state that \<open>py_str\<close> loses nothing.\<close>

definition digit_value :: "char \<Rightarrow> nat" where
  "digit_value c = of_char c - of_char (CHR ''0'')"

definition decimal_value :: "string \<Rightarrow> nat" where
  "decimal_value s = fold (\<lambda>c v. 10 * v + digit_value c) s 0"

declare digits.simps [simp del]

lemma digit_value_digit_char [simp]: "n < 10 \<Longrightarrow> digit_value (digit_char n) = n"
proof -
  assume "n < 10"
  then have "n \<in> {0, 1, 2, 3, 4, 5, 6, 7, 8, 9}" by auto
  then show ?thesis by (auto simp: digit_value_def digit_char_def)
qed

lemma decimal_value_append:
  "decimal_value (s @ [c]) = 10 * decimal_value s + digit_value c"
  by (simp add: decimal_value_def)

lemma decimal_value_digits [simp]: "decimal_value (digits n) = n"
proof (induction n rule: digits.induct)
  case (1 n)
  show ?case
  proof (cases "n < 10")
    case True
    then show ?thesis by (subst digits.simps) (simp add: decimal_value_def)
  next
    case False
    with 1 show ?thesis by (subst digits.simps) (simp add: decimal_value_append)
  qed
qed

lemma digits_small: "n < 10 \<Longrightarrow> digits n = [digit_char n]"
  by (subst digits.simps) simp

lemma digits_large: "\<not> n < 10 \<Longrightarrow> digits n = digits (n div 10) @ [digit_char (n mod 10)]"
  by (subst digits.simps) simp

lemmas digits_numeral [py_eval] =
  digits_small [of "numeral k"] digits_large [of "numeral k"] digits_small [of 0] digits_small [of 1] digits_small [of "Suc 0"]
  for k

lemma py_str_nonneg: "0 \<le> i \<Longrightarrow> py_str i = digits (nat i)"
  by (simp add: py_str_def)

lemma py_str_injective:
  assumes "0 \<le> i" "0 \<le> j" "py_str i = py_str j"
  shows "i = j"
proof -
  from assms have "decimal_value (digits (nat i)) = decimal_value (digits (nat j))"
    by (simp add: py_str_nonneg)
  with assms(1,2) show ?thesis by simp
qed

lemma py_str_example: "py_str 15086 = ''15086''" "py_str 3262 = ''3262''"
  by (simp_all add: py_str_nonneg py_eval digit_char_def)

section \<open>Properties\<close>

text \<open>
  The decimal text of a non-negative integer reads back as that integer:
  \<open>py_str\<close> loses nothing, so two lengths print alike only when they are equal.
\<close>

theorem py_str_reads_back:
  assumes "0 \<le> i"
  shows "int (decimal_value (py_str i)) = i \<and> (\<forall>j\<ge>0. py_str j = py_str i \<longrightarrow> j = i)"
  using assms py_str_injective [OF _ assms] by (simp add: py_str_nonneg)

theorem py_str_reads_back_witness:
  "py_str 15086 = ''15086'' \<and> int (decimal_value ''15086'') = 15086"
  using py_str_reads_back [of 15086] by (simp add: py_str_example)

end
