(* ===== verification/Py_World.thy ===== *)
theory Py_World
  imports Icon_Prelude
begin

text \<open>
  What the \<^verbatim>\<open>__main__\<close> blocks of the scripts touch: files and the console. A
  \<open>world\<close> holds the contents of the files by name, the names that cannot be
  opened for writing, the names that are open for writing, and the lines
  printed so far. A statement returns the world it leaves or raises an
  exception \<^emph>\<open>in\<close> a world: an \<open>io_result\<close> is \<open>Inr w\<close> or \<open>Inl (e, w)\<close>, so what a
  failed block leaves behind is part of its result. \<open>open_wb\<close> is
  \<^verbatim>\<open>open(name, 'wb')\<close>, which creates or empties the file or raises \<^verbatim>\<open>OSError\<close>;
  \<open>file_write\<close> is \<^verbatim>\<open>f.write(data)\<close>, which appends to an open file and raises
  \<^verbatim>\<open>ValueError\<close> on a closed one; \<open>file_close\<close> is what leaving a \<^verbatim>\<open>with\<close> block
  does, on the way out of a return and of an exception alike (\<open>py_finally\<close>);
  \<open>with_open_wb\<close> is the \<^verbatim>\<open>with\<close> statement; \<open>print_line\<close> is \<^verbatim>\<open>print(s)\<close>;
  \<open>raise_in\<close> places a computation that touches no file in a world.

  The same operations are the labels of a transition relation \<open>io_step\<close> on
  worlds; a run \<open>io_run\<close> is a sequence of steps none of which raises. The
  invariants of the world are proved over runs, \<open>ops_ok\<close> reads off a sequence
  of operations whether it has a run, and a sequence that raises carries the
  world of the run before the failing operation.
\<close>

section \<open>Operations\<close>

record world =
  files :: "string \<rightharpoonup> bytes"
  read_only :: "string set"
  open_files :: "string set"
  stdout :: "string list"

type_synonym io_result = "(py_error \<times> world) + world"

definition raise_in :: "world \<Rightarrow> 'a result \<Rightarrow> (py_error \<times> world) + 'a" where
  "raise_in w r = (case r of Inl e \<Rightarrow> Inl (e, w) | Inr x \<Rightarrow> Inr x)"

definition final_world :: "io_result \<Rightarrow> world" where
  "final_world r = (case r of Inl (e, w) \<Rightarrow> w | Inr w \<Rightarrow> w)"

definition open_wb :: "string \<Rightarrow> world \<Rightarrow> io_result" where
  "open_wb name w =
     (if name \<in> read_only w then Inl (OSError, w)
      else Inr (w\<lparr>files := (files w)(name \<mapsto> []), open_files := insert name (open_files w)\<rparr>))"

definition file_write :: "string \<Rightarrow> bytes \<Rightarrow> world \<Rightarrow> io_result" where
  "file_write name data w =
     (if name \<in> open_files w
      then Inr (w\<lparr>files := (files w)(name \<mapsto>
                  (case files w name of None \<Rightarrow> [] | Some old \<Rightarrow> old) @ data)\<rparr>)
      else Inl (ValueError, w))"

definition file_close :: "string \<Rightarrow> world \<Rightarrow> world" where
  "file_close name w = w\<lparr>open_files := open_files w - {name}\<rparr>"

definition py_finally :: "io_result \<Rightarrow> (world \<Rightarrow> world) \<Rightarrow> io_result" where
  "py_finally r cleanup = (case r of Inl (e, w) \<Rightarrow> Inl (e, cleanup w) | Inr w \<Rightarrow> Inr (cleanup w))"

definition with_open_wb :: "string \<Rightarrow> (world \<Rightarrow> io_result) \<Rightarrow> world \<Rightarrow> io_result" where
  "with_open_wb name body w =
     bind_res (open_wb name w) (\<lambda>w. py_finally (body w) (file_close name))"

definition print_line :: "string \<Rightarrow> world \<Rightarrow> world" where
  "print_line s w = w\<lparr>stdout := stdout w @ [s]\<rparr>"

section \<open>Operations as steps\<close>

datatype io_op = Open_wb string | Write string bytes | Close string | Print string

fun do_op :: "io_op \<Rightarrow> world \<Rightarrow> io_result" where
  "do_op (Open_wb name) w = open_wb name w"
| "do_op (Write name data) w = file_write name data w"
| "do_op (Close name) w = Inr (file_close name w)"
| "do_op (Print s) w = Inr (print_line s w)"

definition run_ops :: "io_op list \<Rightarrow> world \<Rightarrow> io_result" where
  "run_ops ops w = for_res ops do_op w"

inductive io_step :: "world \<Rightarrow> io_op \<Rightarrow> world \<Rightarrow> bool" where
  step_open: "name \<notin> read_only w \<Longrightarrow>
     io_step w (Open_wb name)
       (w\<lparr>files := (files w)(name \<mapsto> []), open_files := insert name (open_files w)\<rparr>)"
| step_write: "name \<in> open_files w \<Longrightarrow>
     io_step w (Write name data)
       (w\<lparr>files := (files w)(name \<mapsto>
            (case files w name of None \<Rightarrow> [] | Some old \<Rightarrow> old) @ data)\<rparr>)"
| step_close: "io_step w (Close name) (w\<lparr>open_files := open_files w - {name}\<rparr>)"
| step_print: "io_step w (Print s) (w\<lparr>stdout := stdout w @ [s]\<rparr>)"

inductive io_run :: "world \<Rightarrow> io_op list \<Rightarrow> world \<Rightarrow> bool" where
  run_nil: "io_run w [] w"
| run_cons: "io_step w op w' \<Longrightarrow> io_run w' ops w'' \<Longrightarrow> io_run w (op # ops) w''"

code_pred io_step .

code_pred io_run .

text \<open>The invariant of the world: no file that cannot be written is open for writing.\<close>

definition world_ok :: "world \<Rightarrow> bool" where
  "world_ok w \<longleftrightarrow> open_files w \<inter> read_only w = {}"

text \<open>
  Whether a sequence of operations can be run to its end, read off the
  sequence: \<open>opened\<close> is the set of files open when it starts, \<open>ro\<close> the set
  of protected files. Every file opened is unprotected and every write is to
  a file that is open at that point.
\<close>

fun ops_ok :: "string set \<Rightarrow> string set \<Rightarrow> io_op list \<Rightarrow> bool" where
  "ops_ok opened ro [] = True"
| "ops_ok opened ro (Open_wb name # ops) = (name \<notin> ro \<and> ops_ok (insert name opened) ro ops)"
| "ops_ok opened ro (Write name data # ops) = (name \<in> opened \<and> ops_ok opened ro ops)"
| "ops_ok opened ro (Close name # ops) = ops_ok (opened - {name}) ro ops"
| "ops_ok opened ro (Print s # ops) = ops_ok opened ro ops"

inductive_cases io_step_OpenE [elim!]: "io_step w (Open_wb name) w'"
inductive_cases io_step_WriteE [elim!]: "io_step w (Write name data) w'"
inductive_cases io_step_CloseE [elim!]: "io_step w (Close name) w'"
inductive_cases io_step_PrintE [elim!]: "io_step w (Print s) w'"
inductive_cases io_run_NilE [elim!]: "io_run w [] w'"
inductive_cases io_run_ConsE [elim!]: "io_run w (op # ops) w'"

inductive_simps io_run_Nil [simp]: "io_run w [] w'"
inductive_simps io_run_Cons: "io_run w (op # ops) w'"

lemmas io_intros [intro] = io_step.intros io_run.intros

lemmas io_defs = open_wb_def file_write_def file_close_def print_line_def

section \<open>Exceptions in a world\<close>

lemma raise_in_simps [simp]:
  "raise_in w (Inr x) = Inr x" "raise_in w (Inl e) = Inl (e, w)"
  by (simp_all add: raise_in_def)

lemma raise_in_eq_iff [simp]:
  "raise_in w r = Inr x \<longleftrightarrow> r = Inr x"
  "raise_in w r = Inl (e, w') \<longleftrightarrow> r = Inl e \<and> w' = w"
  by (cases r; auto)+

lemma final_world_simps [simp]:
  "final_world (Inr w) = w" "final_world (Inl (e, w)) = w"
  by (simp_all add: final_world_def)

lemma py_finally_simps [simp]:
  "py_finally (Inr w) cleanup = Inr (cleanup w)"
  "py_finally (Inl (e, w)) cleanup = Inl (e, cleanup w)"
  by (simp_all add: py_finally_def)

lemma final_world_py_finally: "final_world (py_finally r cleanup) = cleanup (final_world r)"
  by (cases r) auto

lemma do_op_raises:
  "do_op op w = Inl (e, w') \<longleftrightarrow> w' = w
    \<and> ((\<exists>name. op = Open_wb name \<and> name \<in> read_only w \<and> e = OSError)
      \<or> (\<exists>name data. op = Write name data \<and> name \<notin> open_files w \<and> e = ValueError))"
  by (cases op) (auto simp: io_defs)

section \<open>Steps and the operations agree\<close>

lemma io_step_do_op: "io_step w op w' \<longleftrightarrow> do_op op w = Inr w'"
  by (cases op) (auto simp: io_defs)

lemma run_ops_simps [simp]:
  "run_ops [] w = Inr w"
  "run_ops (op # ops) w = bind_res (do_op op w) (run_ops ops)"
  by (simp_all add: run_ops_def bind_res_def split: sum.splits)

lemma run_ops_fun:
  "run_ops [] = Inr"
  "run_ops (op # ops) = (\<lambda>w. bind_res (do_op op w) (run_ops ops))"
  by (simp_all add: fun_eq_iff)

lemma io_run_run_ops: "io_run w ops w' \<longleftrightarrow> run_ops ops w = Inr w'"
proof (induction ops arbitrary: w)
  case Nil
  show ?case by auto
next
  case (Cons op ops)
  show ?case
    by (auto simp: io_step_do_op Cons bind_res_eq_Inr_iff intro: run_cons)
qed

lemma run_ops_append: "run_ops (ops @ ops') w = bind_res (run_ops ops w) (run_ops ops')"
  unfolding run_ops_def [abs_def] by (rule for_res_append)

lemma io_run_append:
  "io_run w (ops @ ops') w'' \<longleftrightarrow> (\<exists>w'. io_run w ops w' \<and> io_run w' ops' w'')"
  by (simp add: io_run_run_ops run_ops_append bind_res_eq_Inr_iff)

lemma io_step_deterministic: "io_step w op w' \<Longrightarrow> io_step w op w'' \<Longrightarrow> w'' = w'"
  by (simp add: io_step_do_op)

section \<open>Invariants of a step\<close>

lemma io_step_world_ok: "io_step w op w' \<Longrightarrow> world_ok w \<Longrightarrow> world_ok w'"
  by (induction rule: io_step.induct) (auto simp: world_ok_def)

lemma io_step_read_only: "io_step w op w' \<Longrightarrow> read_only w' = read_only w"
  by (induction rule: io_step.induct) simp_all

lemma io_step_protected:
  "io_step w op w' \<Longrightarrow> world_ok w \<Longrightarrow> name \<in> read_only w \<Longrightarrow> files w' name = files w name"
  by (induction rule: io_step.induct) (auto simp: world_ok_def)

lemma io_step_stdout: "io_step w op w' \<Longrightarrow> \<exists>ls. stdout w' = stdout w @ ls"
  by (induction rule: io_step.induct) simp_all

lemma io_step_closed_file:
  "io_step w op w' \<Longrightarrow> name \<notin> open_files w \<Longrightarrow> op \<noteq> Open_wb name \<Longrightarrow>
     files w' name = files w name \<and> name \<notin> open_files w'"
  by (induction rule: io_step.induct) auto

section \<open>Runs that raise\<close>

lemma do_op_raises_here: "do_op op w = Inl (e, w') \<Longrightarrow> w' = w"
  by (simp add: do_op_raises)

lemma raising_split:
  "(\<exists>ops1 op' ops2. op # ops = ops1 @ op' # ops2 \<and> io_run w ops1 w'
        \<and> do_op op' w' = Inl (e, w'))
    \<longleftrightarrow> do_op op w = Inl (e, w')
      \<or> (\<exists>w1. io_step w op w1
          \<and> (\<exists>ops1 op' ops2. ops = ops1 @ op' # ops2 \<and> io_run w1 ops1 w'
               \<and> do_op op' w' = Inl (e, w')))"
  (is "?L \<longleftrightarrow> ?A \<or> ?B")
proof
  assume ?L
  then obtain ops1 op' ops2 where split: "op # ops = ops1 @ op' # ops2"
    and run: "io_run w ops1 w'" and raises: "do_op op' w' = Inl (e, w')"
    by blast
  show "?A \<or> ?B"
  proof (cases ops1)
    case Nil
    with split run raises show ?thesis by simp
  next
    case (Cons op1 ops1')
    with split run raises show ?thesis by (auto simp: io_run_Cons)
  qed
next
  assume "?A \<or> ?B"
  then show ?L
  proof
    assume ?A
    then have "op # ops = [] @ op # ops \<and> io_run w [] w' \<and> do_op op w' = Inl (e, w')"
      by (auto dest: do_op_raises_here)
    then show ?L by blast
  next
    assume ?B
    then obtain w1 ops1 op' ops2 where "io_step w op w1" "ops = ops1 @ op' # ops2"
      "io_run w1 ops1 w'" "do_op op' w' = Inl (e, w')"
      by blast
    then have "op # ops = (op # ops1) @ op' # ops2 \<and> io_run w (op # ops1) w'
        \<and> do_op op' w' = Inl (e, w')"
      by auto
    then show ?L by blast
  qed
qed

section \<open>The static check\<close>

lemma ops_ok_step:
  "io_step w op w' \<Longrightarrow>
     ops_ok (open_files w) (read_only w) (op # ops) = ops_ok (open_files w') (read_only w') ops"
  by (induction rule: io_step.induct) simp_all

lemma ops_ok_refused:
  "do_op op w = Inl p \<Longrightarrow> \<not> ops_ok (open_files w) (read_only w) (op # ops)"
  by (cases p) (auto simp: do_op_raises)

lemma ops_ok_is_ok: "ops_ok (open_files w) (read_only w) ops \<longleftrightarrow> is_ok (run_ops ops w)"
proof (induction ops arbitrary: w)
  case Nil
  show ?case by simp
next
  case (Cons op ops)
  show ?case
  proof (cases "do_op op w")
    case (Inl p)
    then show ?thesis by (simp add: ops_ok_refused)
  next
    case (Inr w1)
    then have "io_step w op w1" by (simp add: io_step_do_op)
    from ops_ok_step [OF this] Inr show ?thesis by (simp add: Cons)
  qed
qed

section \<open>The \<^verbatim>\<open>with\<close> statement\<close>

lemma with_open_wb_read_only:
  "name \<in> read_only w \<Longrightarrow> with_open_wb name body w = Inl (OSError, w)"
  by (simp add: with_open_wb_def open_wb_def)

lemma with_open_wb_opened:
  "name \<notin> read_only w \<Longrightarrow>
     with_open_wb name body w
       = py_finally (body (w\<lparr>files := (files w)(name \<mapsto> []),
                            open_files := insert name (open_files w)\<rparr>)) (file_close name)"
  by (simp add: with_open_wb_def open_wb_def)

section \<open>Properties\<close>



text \<open>
  The transition relation and the operations are the same thing: a run
  of the relation exists exactly when the operations, executed in order,
  raise nothing, and it ends in the world they return. A run is determined
  by its operations.
\<close>

theorem io_run_is_run_ops:
  "(io_run w ops w' \<longleftrightarrow> run_ops ops w = Inr w')
    \<and> (io_run w ops w' \<and> io_run w ops w'' \<longrightarrow> w'' = w')"
  by (auto simp: io_run_run_ops)

theorem io_run_is_run_ops_witness:
  "\<not> io_run \<lparr>files = Map.empty, read_only = {}, open_files = {}, stdout = []\<rparr>
        [Write ''icon.ico'' [0]] w'
    \<and> run_ops [Write ''icon.ico'' [0]]
        \<lparr>files = Map.empty, read_only = {}, open_files = {}, stdout = []\<rparr>
      = Inl (ValueError, \<lparr>files = Map.empty, read_only = {}, open_files = {}, stdout = []\<rparr>)"
  using io_run_is_run_ops
    [of "\<lparr>files = Map.empty, read_only = {}, open_files = {}, stdout = []\<rparr>"
        "[Write ''icon.ico'' [0]]" w']
  by (simp add: file_write_def)



text \<open>
  A sequence of operations raises an exception exactly when it splits
  into operations that form a run, an operation that raises in the world at
  the end of that run, and the operations never reached; the exception
  carries that world. So what a failed sequence leaves behind is what the
  operations before the failing one did, no more and no less.
\<close>

theorem raised_world_is_reached:
  "run_ops ops w = Inl (e, w') \<longleftrightarrow>
     (\<exists>ops1 op ops2. ops = ops1 @ op # ops2 \<and> io_run w ops1 w' \<and> do_op op w' = Inl (e, w'))"
proof (induction ops arbitrary: w)
  case Nil
  show ?case by simp
next
  case (Cons op ops)
  show ?case
    unfolding raising_split by (simp add: bind_res_eq_Inl_iff io_step_do_op Cons)
qed

theorem raised_world_is_reached_witness:
  "run_ops [Open_wb ''b'', Close ''b'', Write ''b'' [7], Print ''done'']
      \<lparr>files = Map.empty, read_only = {}, open_files = {}, stdout = []\<rparr>
    = Inl (ValueError, \<lparr>files = [''b'' \<mapsto> []], read_only = {}, open_files = {}, stdout = []\<rparr>)
    \<and> io_run \<lparr>files = Map.empty, read_only = {}, open_files = {}, stdout = []\<rparr>
        [Open_wb ''b'', Close ''b'']
        \<lparr>files = [''b'' \<mapsto> []], read_only = {}, open_files = {}, stdout = []\<rparr>"
  using raised_world_is_reached
    [of "[Open_wb ''b'', Close ''b'', Write ''b'' [7], Print ''done'']"
        "\<lparr>files = Map.empty, read_only = {}, open_files = {}, stdout = []\<rparr>" ValueError
        "\<lparr>files = [''b'' \<mapsto> []], read_only = {}, open_files = {}, stdout = []\<rparr>"]
  by (simp add: io_run_run_ops io_defs)

text \<open>
  Whatever the operations are and whether they raise or not, the world
  they leave keeps the invariant, has the same protected files, and none of
  these has changed: an exception does not leave a protected file modified
  or open.
\<close>

theorem protected_files_survive_exceptions:
  assumes "world_ok w"
  shows "world_ok (final_world (run_ops ops w))
    \<and> read_only (final_world (run_ops ops w)) = read_only w
    \<and> (\<forall>name\<in>read_only w. files (final_world (run_ops ops w)) name = files w name)"
  using assms
proof (induction ops arbitrary: w)
  case Nil
  then show ?case by simp
next
  case (Cons op ops)
  show ?case
  proof (cases "do_op op w")
    case (Inl p)
    then have "do_op op w = Inl (fst p, w)"
      by (cases p) (auto dest: do_op_raises_here)
    with Cons.prems show ?thesis by simp
  next
    case (Inr w1)
    then have step: "io_step w op w1"
      by (simp add: io_step_do_op)
    from step Cons.prems have "world_ok w1" by (rule io_step_world_ok)
    with Cons.IH [of w1] io_step_read_only [OF step] io_step_protected [OF step Cons.prems] Inr
    show ?thesis by simp
  qed
qed

theorem protected_files_survive_exceptions_witness:
  "files (final_world (run_ops [Open_wb ''b'', Write ''b'' [7], Open_wb ''a'', Print ''done'']
      \<lparr>files = [''a'' \<mapsto> [1]], read_only = {''a''}, open_files = {}, stdout = []\<rparr>)) ''a''
    = Some [1]
   \<and> final_world (run_ops [Open_wb ''b'', Write ''b'' [7], Open_wb ''a'', Print ''done'']
      \<lparr>files = [''a'' \<mapsto> [1]], read_only = {''a''}, open_files = {}, stdout = []\<rparr>)
    = \<lparr>files = [''a'' \<mapsto> [1], ''b'' \<mapsto> [7]], read_only = {''a''}, open_files = {''b''},
       stdout = []\<rparr>"
  using protected_files_survive_exceptions
    [of "\<lparr>files = [''a'' \<mapsto> [1]], read_only = {''a''}, open_files = {}, stdout = []\<rparr>"
        "[Open_wb ''b'', Write ''b'' [7], Open_wb ''a'', Print ''done'']"]
  by (simp add: io_defs world_ok_def fun_upd_twist)



end
