(* ===== verification/Ico_Format.thy ===== *)
theory Ico_Format
  imports Py_Struct
begin

text \<open>
  The reader's side of the ICO container, as the format fixes it: a 6-byte
  header (reserved, type, count), one 16-byte directory entry per image
  (width, height, colour count, reserved, planes, bit count, size of the image
  data, offset of the image data from the start of the file) and, at each
  offset, a 40-byte \<^verbatim>\<open>BITMAPINFOHEADER\<close> followed by the pixel rows and the mask.

  Neither script contains a reader. These definitions are the interface both
  generators are measured against: a generator is right when what it wrote
  reads back as what it meant to write. Reading a field is \<open>unpack\<close> on a
  slice, so a file that is too short raises instead of yielding fields.
\<close>

section \<open>Directory\<close>

definition read_header :: "bytes \<Rightarrow> int list result" where
  "read_header file = unpack ''<HHH'' (py_slice file 0 6)"

definition read_entry :: "bytes \<Rightarrow> int \<Rightarrow> int list result" where
  "read_entry file i = unpack ''<BBBBHHII'' (py_slice file (6 + 16 * i) (22 + 16 * i))"

definition entry_size :: "int list \<Rightarrow> int" where
  "entry_size fields = fields ! 6"

definition entry_offset :: "int list \<Rightarrow> int" where
  "entry_offset fields = fields ! 7"

definition read_image :: "bytes \<Rightarrow> int \<Rightarrow> bytes result" where
  "read_image file i =
     bind_res (read_entry file i) (\<lambda>fields.
       Inr (py_slice file (entry_offset fields) (entry_offset fields + entry_size fields)))"

text \<open>The directory convention for a dimension of 256 pixels: the byte 0.\<close>

definition shown_dim :: "int \<Rightarrow> int" where
  "shown_dim b = (if b = 0 then 256 else b)"

section \<open>Bitmap header\<close>

definition read_bmp_header :: "bytes \<Rightarrow> int list result" where
  "read_bmp_header img = unpack ''<IIIHHIIIIII'' (py_slice img 0 40)"

definition row_stride :: "int \<Rightarrow> int \<Rightarrow> int" where
  "row_stride width bit_count = ((width * bit_count + 31) div 32) * 4"

definition mask_stride :: "int \<Rightarrow> int" where
  "mask_stride width = ((width + 31) div 32) * 4"

section \<open>Pixel rows\<close>

text \<open>
  Stored row \<open>i\<close> of an image starts \<open>i\<close> strides behind the 40-byte header.
  The format stores the bottom row of the picture first, so the row shown at
  line \<open>y\<close> from the top is stored row \<open>height - 1 - y\<close>.
\<close>

definition read_row :: "bytes \<Rightarrow> int \<Rightarrow> int \<Rightarrow> int \<Rightarrow> bytes" where
  "read_row img width bit_count i =
     py_slice img (40 + i * row_stride width bit_count)
       (40 + i * row_stride width bit_count + width * (bit_count div 8))"

definition displayed_row :: "bytes \<Rightarrow> int \<Rightarrow> int \<Rightarrow> int \<Rightarrow> int \<Rightarrow> bytes" where
  "displayed_row img width height bit_count y = read_row img width bit_count (height - 1 - y)"

section \<open>The mask\<close>

text \<open>
  The mask plane follows the colour rows: one bit per pixel, eight pixels per
  byte with the leftmost pixel in the highest bit, rows from the bottom, each
  row \<open>mask_stride\<close> bytes. A bit that is set makes the pixel transparent. A
  reader that needs a byte behind the end of the image gets \<open>None\<close>.
\<close>

definition mask_offset :: "int \<Rightarrow> int \<Rightarrow> int \<Rightarrow> int" where
  "mask_offset width height bit_count = 40 + row_stride width bit_count * height"

definition read_mask_bit :: "bytes \<Rightarrow> int \<Rightarrow> int \<Rightarrow> int \<Rightarrow> int \<Rightarrow> int \<Rightarrow> bool option" where
  "read_mask_bit img width height bit_count y x =
     (let off = mask_offset width height bit_count + (height - 1 - y) * mask_stride width
                  + x div 8
      in case py_slice img off (off + 1) of
           [b] \<Rightarrow> Some (bit b (nat (7 - x mod 8)))
         | _ \<Rightarrow> None)"

section \<open>Reading what was packed\<close>

lemma py_slice_prefix:
  "n = int (length xs) \<Longrightarrow> py_slice (xs @ ys) 0 n = xs"
  by (simp add: py_slice_nonneg)

lemma py_slice_middle:
  "a = int (length pre) \<Longrightarrow> b = a + int (length xs) \<Longrightarrow> py_slice (pre @ xs @ ys) a b = xs"
  by (simp add: py_slice_nonneg nat_add_distrib)

lemma py_slice_inside:
  assumes "a = int (length pre)" and "0 \<le> i" and "i \<le> j" and "j \<le> int (length xs)"
  shows "py_slice (pre @ xs @ post) (a + i) (a + j) = drop (nat i) (take (nat j) xs)"
proof -
  from assms have "nat (a + i) = length pre + nat i" "nat (a + j) = length pre + nat j"
    "nat j \<le> length xs"
    by (simp_all add: nat_add_distrib)
  with assms show ?thesis by (simp add: py_slice_nonneg)
qed

lemma read_header_pack:
  "pack ''<HHH'' vs = Inr hdr \<Longrightarrow> read_header (hdr @ rest) = Inr vs"
proof -
  assume p: "pack ''<HHH'' vs = Inr hdr"
  then have "length hdr = 6" by (auto simp: format_eval dest: pack_length)
  with p show ?thesis by (simp add: read_header_def py_slice_prefix unpack_pack)
qed

lemma read_entry_pack:
  assumes "length hdr = 6" and "pack ''<BBBBHHII'' vs = Inr e"
  shows "read_entry (hdr @ e @ rest) 0 = Inr vs"
proof -
  from assms(2) have "length e = 16" by (auto simp: format_eval dest: pack_length)
  with assms show ?thesis
    by (simp add: read_entry_def py_slice_middle [of 6 hdr 22 e rest] unpack_pack)
qed

lemma read_image_slice:
  assumes "read_entry file i = Inr fields" and "file = pre @ img @ rest"
    and "entry_offset fields = int (length pre)" and "entry_size fields = int (length img)"
  shows "read_image file i = Inr img"
  using assms by (simp add: read_image_def py_slice_middle)

lemma read_bmp_header_pack:
  "pack ''<IIIHHIIIIII'' vs = Inr hdr \<Longrightarrow> read_bmp_header (hdr @ rest) = Inr vs"
proof -
  assume p: "pack ''<IIIHHIIIIII'' vs = Inr hdr"
  then have "length hdr = 40" by (auto simp: format_eval dest: pack_length)
  with p show ?thesis by (simp add: read_bmp_header_def py_slice_prefix unpack_pack)
qed

lemma row_stride_multiple_of_4: "row_stride width bit_count mod 4 = 0"
  by (simp add: row_stride_def)

lemma row_stride_32: "row_stride width 32 = 4 * width"
  by (simp add: row_stride_def)

lemma row_stride_24: "row_stride width 24 = ((width * 3 + 3) div 4) * 4"
  unfolding row_stride_def by (simp add: algebra_simps)

lemma row_stride_bounds:
  "0 \<le> width \<Longrightarrow> 0 \<le> bit_count \<Longrightarrow>
     width * bit_count \<le> 8 * row_stride width bit_count
       \<and> 8 * row_stride width bit_count < width * bit_count + 32"
  unfolding row_stride_def by (simp add: algebra_simps) presburger

section \<open>Reading the mask\<close>

lemma mask_index_bounds:
  assumes "0 \<le> x" and "x < width" and "0 \<le> y" and "y < height"
  shows "0 \<le> (height - 1 - y) * mask_stride width + x div 8"
    and "(height - 1 - y) * mask_stride width + x div 8 < mask_stride width * height"
proof -
  let ?m = "mask_stride width"
  have "x div 8 < ?m" using assms(1,2) unfolding mask_stride_def by linarith
  moreover have "0 \<le> x div 8" using assms(1) by simp
  moreover have m: "0 \<le> ?m" using assms(1,2) unfolding mask_stride_def by linarith
  moreover from assms(3,4) m have "0 \<le> (height - 1 - y) * ?m" by simp
  moreover from assms(3) m have "(height - 1 - y) * ?m \<le> (height - 1) * ?m"
    by (intro mult_right_mono) simp_all
  ultimately show "0 \<le> (height - 1 - y) * ?m + x div 8"
    and "(height - 1 - y) * ?m + x div 8 < ?m * height"
    by (simp_all add: algebra_simps)
qed

text \<open>A mask plane of zero bytes makes every pixel it covers opaque.\<close>

lemma read_mask_bit_zeros:
  assumes "img = pre @ replicate n 0" and "int (length pre) = mask_offset width height bit_count"
    and "0 \<le> (height - 1 - y) * mask_stride width + x div 8"
    and "(height - 1 - y) * mask_stride width + x div 8 < int n"
  shows "read_mask_bit img width height bit_count y x = Some False"
proof -
  define i where "i = (height - 1 - y) * mask_stride width + x div 8"
  from assms(3,4) have i: "0 \<le> i" "i < int n" by (simp_all add: i_def)
  have "py_slice (pre @ replicate n 0 @ []) (int (length pre) + i) (int (length pre) + (i + 1))
      = drop (nat i) (take (nat (i + 1)) (replicate n (0 :: byte)))"
    using i by (intro py_slice_inside) simp_all
  also have "\<dots> = [0]"
  proof -
    from i have "nat (i + 1) = Suc (nat i)" "nat i < n" by linarith+
    then have "drop (nat i) (take (nat (i + 1)) (replicate n (0 :: byte)))
        = replicate (min (Suc (nat i)) n - nat i) 0"
      by (simp only: take_replicate drop_replicate)
    also have "min (Suc (nat i)) n - nat i = 1" using \<open>nat i < n\<close> by simp
    finally show ?thesis by simp
  qed
  finally show ?thesis
    by (simp add: read_mask_bit_def assms(1,2) [symmetric] i_def add.assoc)
qed

lemma read_mask_bit_zero_plane:
  assumes "img = pre @ replicate n 0" and "int (length pre) = mask_offset width height bit_count"
    and "int n = mask_stride width * height"
    and "0 \<le> x" and "x < width" and "0 \<le> y" and "y < height"
  shows "read_mask_bit img width height bit_count y x = Some False"
  using assms(1,2) mask_index_bounds [OF assms(4-7)] unfolding assms(3) [symmetric]
  by (rule read_mask_bit_zeros)

text \<open>A mask that is shorter than the format asks for: the reader runs off the end.\<close>

lemma read_mask_bit_outside:
  assumes "int (length img)
    \<le> mask_offset width height bit_count + (height - 1 - y) * mask_stride width + x div 8"
  shows "read_mask_bit img width height bit_count y x = None"
proof -
  let ?off = "mask_offset width height bit_count + (height - 1 - y) * mask_stride width + x div 8"
  from assms have "0 \<le> ?off" "length img \<le> nat ?off" by linarith+
  then have "py_slice img ?off (?off + 1) = []" by (simp add: py_slice_nonneg)
  then show ?thesis by (simp add: read_mask_bit_def)
qed

end
