(* ===== verification/Ico_Encoder.thy ===== *)
theory Ico_Encoder
  imports Ico_Format
begin

text \<open>
  The encoder the format description asks for: \<open>encode\<close> takes a list of
  images (width, height, three or four channels, the pixels row by row from
  the top) and returns the ICO file, or \<open>InvalidImageError\<close>. No function of
  the repository has this interface; the two scripts are special cases with
  the picture built in. The definitions here are the abstract specification
  the scripts are compared with in \<open>Icon_Refinement\<close>. \<open>decode\<close> is the reader
  of the round trip; \<open>encoded_offset\<close> says where the container puts an image.
  The lemmas are the properties the format description lists, up to the round
  trip of a whole container (\<open>decode_encode\<close>).
\<close>

section \<open>Images\<close>

datatype encode_error = InvalidImageError

record ico_image =
  img_width :: int
  img_height :: int
  img_channels :: int
  img_pixels :: "bytes list"

definition valid_image :: "ico_image \<Rightarrow> bool" where
  "valid_image im \<longleftrightarrow> 0 < img_width im \<and> 0 < img_height im
     \<and> (img_channels im = 3 \<or> img_channels im = 4)
     \<and> py_len (img_pixels im) = img_width im * img_height im
     \<and> list_all (\<lambda>px. py_len px = img_channels im) (img_pixels im)"

definition image_row :: "ico_image \<Rightarrow> int \<Rightarrow> bytes list" where
  "image_row im y =
     py_slice (img_pixels im) (y * img_width im) (y * img_width im + img_width im)"

definition image_rows :: "ico_image \<Rightarrow> bytes list list" where
  "image_rows im = map (image_row im) (py_range (img_height im))"

definition flip_image :: "ico_image \<Rightarrow> ico_image" where
  "flip_image im = im\<lparr>img_pixels := concat (rev (image_rows im))\<rparr>"

section \<open>One image\<close>

definition bgr_pixel :: "bytes \<Rightarrow> bytes" where
  "bgr_pixel px = (case px of r # g # b # rest \<Rightarrow> b # g # r # rest | _ \<Rightarrow> px)"

definition padded_row_size :: "int \<Rightarrow> int \<Rightarrow> int" where
  "padded_row_size width bytes_per_pixel = ((width * bytes_per_pixel + 3) div 4) * 4"

definition encode_row :: "ico_image \<Rightarrow> bytes list \<Rightarrow> bytes" where
  "encode_row im row =
     (let data = concat (map bgr_pixel row)
      in data @ py_repeat [0]
           (padded_row_size (img_width im) (img_channels im) - py_len data))"

definition encode_pixels :: "ico_image \<Rightarrow> bytes" where
  "encode_pixels im = concat (map (encode_row im) (rev (image_rows im)))"

definition encode_mask :: "ico_image \<Rightarrow> bytes" where
  "encode_mask im = py_repeat [0] (((img_width im + 31) div 32) * 4 * img_height im)"

definition encode_header :: "ico_image \<Rightarrow> bytes" where
  "encode_header im =
     le_bytes 4 40 @ le_bytes 4 (img_width im) @ le_bytes 4 (img_height im * 2)
       @ le_bytes 2 1 @ le_bytes 2 (8 * img_channels im) @ replicate 24 0"

definition encode_image :: "ico_image \<Rightarrow> bytes" where
  "encode_image im = encode_header im @ encode_pixels im @ encode_mask im"

section \<open>The container\<close>

definition dir_dim :: "int \<Rightarrow> int" where
  "dir_dim d = (if d \<le> 255 then d else 0)"

definition encode_entry :: "ico_image \<Rightarrow> int \<Rightarrow> int \<Rightarrow> bytes" where
  "encode_entry im sz off =
     le_bytes 1 (dir_dim (img_width im)) @ le_bytes 1 (dir_dim (img_height im))
       @ le_bytes 1 0 @ le_bytes 1 0 @ le_bytes 2 1 @ le_bytes 2 (8 * img_channels im)
       @ le_bytes 4 sz @ le_bytes 4 off"

primrec encode_directory :: "int \<Rightarrow> ico_image list \<Rightarrow> bytes" where
  "encode_directory off [] = []"
| "encode_directory off (im # ims) =
     encode_entry im (py_len (encode_image im)) off
       @ encode_directory (off + py_len (encode_image im)) ims"

definition encode :: "ico_image list \<Rightarrow> encode_error + bytes" where
  "encode images =
     (if images = [] \<or> \<not> list_all valid_image images then Inl InvalidImageError
      else Inr (le_bytes 2 0 @ le_bytes 2 1 @ le_bytes 2 (py_len images)
                 @ encode_directory (6 + 16 * py_len images) images
                 @ concat (map encode_image images)))"

section \<open>Reading an image back\<close>

text \<open>
  The inverse the round trip of the format asks for: the dimensions and the
  depth come from the bitmap header, the rows are read in the order they are
  displayed, and every pixel is put back into the order red, green, blue.
\<close>

definition read_pixel :: "bytes \<Rightarrow> int \<Rightarrow> int \<Rightarrow> bytes" where
  "read_pixel row channels x = bgr_pixel (py_slice row (x * channels) (x * channels + channels))"

definition read_pixels :: "bytes \<Rightarrow> int \<Rightarrow> int \<Rightarrow> int \<Rightarrow> bytes list" where
  "read_pixels img width height channels =
     concat (map (\<lambda>y. map (read_pixel (displayed_row img width height (8 * channels) y) channels)
                         (py_range width))
               (py_range height))"

definition decode_image :: "bytes \<Rightarrow> ico_image result" where
  "decode_image img =
     bind_res (read_bmp_header img) (\<lambda>fields.
       let width = fields ! 1; height = fields ! 2 div 2; channels = fields ! 4 div 8
       in Inr \<lparr>img_width = width, img_height = height, img_channels = channels,
                img_pixels = read_pixels img width height channels\<rparr>)"

definition decode :: "bytes \<Rightarrow> int \<Rightarrow> ico_image result" where
  "decode file i = bind_res (read_image file i) decode_image"

text \<open>
  Where the container puts image \<open>i\<close>: behind the header, the directory and
  the images before it.
\<close>

definition images_len :: "ico_image list \<Rightarrow> int" where
  "images_len ims = py_len (concat (map encode_image ims))"

definition encoded_offset :: "ico_image list \<Rightarrow> nat \<Rightarrow> int" where
  "encoded_offset ims i = 6 + 16 * py_len ims + images_len (take i ims)"

section \<open>Rows of an image\<close>

lemma bgr_pixel_twice [simp]: "bgr_pixel (bgr_pixel px) = px"
  by (auto simp: bgr_pixel_def split: list.splits)

lemma length_bgr_pixel [simp]: "length (bgr_pixel px) = length px"
  by (auto simp: bgr_pixel_def split: list.splits)

lemma padded_row_size_stride: "padded_row_size width c = row_stride width (8 * c)"
proof -
  have "(8 * t + 31) div 32 = (t + 3) div 4" for t :: int
  proof -
    have "(8 * t + 31) div (8 * 4) = (8 * t + 31) div 8 div 4" by (rule zdiv_zmult2_eq) simp
    moreover have "(8 * t + 31) div 8 = t + 3" by simp
    ultimately show ?thesis by simp
  qed
  from this [of "width * c"] show ?thesis
    by (simp add: padded_row_size_def row_stride_def mult.assoc mult.left_commute)
qed

lemma image_rows_concat:
  assumes "img_pixels im = concat rs" and "length rs = nat (img_height im)"
    and "\<And>r. r \<in> set rs \<Longrightarrow> length r = nat (img_width im)" and "0 \<le> img_width im"
  shows "image_rows im = rs"
proof (rule nth_equalityI)
  show "length (image_rows im) = length rs" using assms(2) by (simp add: image_rows_def)
next
  fix i assume "i < length (image_rows im)"
  then have i: "i < length rs" using assms(2) by (simp add: image_rows_def)
  have "image_row im (int i) = drop (i * nat (img_width im))
      (take (Suc i * nat (img_width im)) (concat (map (\<lambda>r. r) rs)))"
    using assms(4) by (simp add: image_row_def py_slice_row assms(1))
  also have "\<dots> = rs ! i" using assms(3) i by (intro row_of_concat) auto
  finally show "image_rows im ! i = rs ! i" using i assms(2) by (simp add: image_rows_def)
qed

lemma image_rows_nat:
  assumes "0 \<le> img_width im"
  shows "image_rows im = map (\<lambda>i. drop (i * nat (img_width im))
      (take (i * nat (img_width im) + nat (img_width im)) (img_pixels im)))
    [0..<nat (img_height im)]"
proof -
  have "image_row im (int i) = drop (i * nat (img_width im))
      (take (i * nat (img_width im) + nat (img_width im)) (img_pixels im))" for i
    unfolding image_row_def py_slice_row [OF assms] by (simp add: add.commute)
  then show ?thesis by (simp add: image_rows_def py_range_def o_def)
qed

lemma valid_image_length:
  assumes "valid_image im"
  shows "length (img_pixels im) = nat (img_height im) * nat (img_width im)"
proof -
  from assms have "int (length (img_pixels im)) = img_height im * img_width im"
    and "0 \<le> img_height im"
    by (simp_all add: valid_image_def py_len_def mult.commute)
  then show ?thesis by (metis nat_int nat_mult_distrib)
qed

lemma length_image_rows [simp]: "length (image_rows im) = nat (img_height im)"
  by (simp add: image_rows_def)

lemma concat_image_rows:
  assumes "valid_image im"
  shows "concat (image_rows im) = img_pixels im"
  using assms valid_image_length [OF assms]
  by (simp add: image_rows_nat concat_slices valid_image_def)

lemma length_image_row:
  assumes "valid_image im" and "r \<in> set (image_rows im)"
  shows "length r = nat (img_width im)"
proof -
  from assms(1) have w: "0 \<le> img_width im" by (simp add: valid_image_def)
  from assms(2) obtain i where i: "i < nat (img_height im)"
    and r: "r = drop (i * nat (img_width im))
      (take (i * nat (img_width im) + nat (img_width im)) (img_pixels im))"
    by (auto simp: image_rows_nat [OF w])
  from i have "Suc i * nat (img_width im) \<le> nat (img_height im) * nat (img_width im)"
    by (intro mult_le_mono1) simp
  then show ?thesis using valid_image_length [OF assms(1)] by (simp add: r)
qed

text \<open>Turning an image upside down keeps it valid, and twice is the identity.\<close>

lemma image_rows_flip:
  assumes "valid_image im"
  shows "image_rows (flip_image im) = rev (image_rows im)"
  using assms
  by (intro image_rows_concat) (auto simp: flip_image_def length_image_row valid_image_def)

lemma valid_flip_image:
  assumes "valid_image im"
  shows "valid_image (flip_image im)"
proof -
  have "length (concat (rev (image_rows im))) = length (concat (image_rows im))"
    by (simp add: length_concat rev_map [symmetric] sum_list_rev)
  moreover have "set (concat (rev (image_rows im))) = set (concat (image_rows im))" by auto
  ultimately show ?thesis
    using assms by (simp add: valid_image_def flip_image_def py_len_def list_all_iff
        concat_image_rows [OF assms])
qed

lemma flip_image_twice:
  assumes "valid_image im"
  shows "flip_image (flip_image im) = im"
proof -
  have "img_pixels (flip_image (flip_image im)) = concat (rev (image_rows (flip_image im)))"
    by (simp add: flip_image_def)
  also have "\<dots> = img_pixels im" by (simp add: image_rows_flip assms concat_image_rows)
  finally show ?thesis by (simp add: flip_image_def)
qed

section \<open>Lengths\<close>

lemma length_image_pixel:
  assumes "valid_image im" and "r \<in> set (image_rows im)" and "px \<in> set r"
  shows "length px = nat (img_channels im)"
proof -
  from assms(2,3) have "px \<in> set (concat (image_rows im))" by auto
  then have "px \<in> set (img_pixels im)" by (simp only: concat_image_rows [OF assms(1)])
  then have "py_len px = img_channels im"
    using assms(1) by (simp add: valid_image_def list_all_iff)
  then show ?thesis by (metis nat_int py_len_def)
qed

lemma length_row_data:
  assumes "valid_image im" and "r \<in> set (image_rows im)"
  shows "py_len (concat (map bgr_pixel r)) = img_width im * img_channels im"
proof -
  have "length (concat (map bgr_pixel r)) = nat (img_channels im) * length r"
    by (intro length_concat_map_const) (simp add: length_image_pixel [OF assms])
  then show ?thesis
    using assms(1) length_image_row [OF assms]
    by (auto simp: py_len_def valid_image_def mult.commute)
qed

lemma row_data_le_padded: "width * c \<le> padded_row_size width c"
proof -
  have "t \<le> (t + 3) div 4 * 4" for t :: int by presburger
  then show ?thesis by (simp add: padded_row_size_def)
qed

lemma length_encode_row:
  assumes "valid_image im" and "r \<in> set (image_rows im)"
  shows "py_len (encode_row im r) = padded_row_size (img_width im) (img_channels im)"
  using length_row_data [OF assms] row_data_le_padded [of "img_width im" "img_channels im"]
  by (simp add: encode_row_def Let_def py_len_def)

lemma take_encode_row:
  assumes "valid_image im" and "r \<in> set (image_rows im)"
  shows "take (nat (img_width im * img_channels im)) (encode_row im r)
    = concat (map bgr_pixel r)"
  using length_row_data [OF assms] by (simp add: encode_row_def Let_def py_len_def)

lemma length_encode_pixels:
  assumes "valid_image im"
  shows "py_len (encode_pixels im)
    = padded_row_size (img_width im) (img_channels im) * img_height im"
proof -
  have "length (encode_row im r) = nat (padded_row_size (img_width im) (img_channels im))"
    if "r \<in> set (image_rows im)" for r
    using length_encode_row [OF assms that] by (metis nat_int py_len_def)
  then have "length (concat (map (encode_row im) (rev (image_rows im))))
      = nat (padded_row_size (img_width im) (img_channels im)) * length (rev (image_rows im))"
    by (intro length_concat_map_const) simp
  moreover have "0 \<le> padded_row_size (img_width im) (img_channels im)"
    using length_encode_row [OF assms, of "image_rows im ! 0"] assms
    by (simp add: valid_image_def py_len_def)
  ultimately show ?thesis
    using assms by (simp add: encode_pixels_def py_len_def valid_image_def nat_mult_distrib)
qed

lemma length_encode_entry [simp]: "length (encode_entry im sz off) = 16"
  by (simp add: encode_entry_def)

lemma length_encode_directory [simp]: "length (encode_directory off ims) = 16 * length ims"
  by (induction ims arbitrary: off) simp_all

lemma length_encode_header [simp]: "length (encode_header im) = 40"
  by (simp add: encode_header_def)

lemma length_encode_image:
  assumes "valid_image im"
  shows "py_len (encode_image im)
    = 40 + padded_row_size (img_width im) (img_channels im) * img_height im
        + mask_stride (img_width im) * img_height im"
proof -
  have "0 \<le> (img_width im + 31) div 32" and "0 \<le> img_height im"
    using assms by (simp_all add: valid_image_def pos_imp_zdiv_nonneg_iff)
  then have "0 \<le> (img_width im + 31) div 32 * 4 * img_height im" by simp
  then show ?thesis
    using length_encode_pixels [OF assms]
    by (simp add: encode_image_def encode_mask_def mask_stride_def py_len_def)
qed

section \<open>The round trip of one image\<close>

lemma stored_row_prefix:
  assumes "\<And>x. x \<in> set xs \<Longrightarrow> length (f x) = k" and "i < length xs" and "j \<le> k"
  shows "drop (i * k) (take (i * k + j) (concat (map f xs))) = take j (f (xs ! i))"
proof -
  have "drop (i * k) (take (i * k + j) (concat (map f xs)))
      = take j (drop (i * k) (concat (map f xs)))"
    by (simp add: drop_take)
  also have "drop (i * k) (concat (map f xs)) = concat (map f (drop i xs))"
    using assms(1) by (rule drop_concat_rows)
  also have "drop i xs = xs ! i # drop (Suc i) xs"
    using assms(2) by (simp add: Cons_nth_drop_Suc)
  finally show ?thesis using assms by simp
qed

lemma read_pixel_row:
  assumes "\<And>px. px \<in> set r \<Longrightarrow> length px = nat c" and "0 \<le> c"
  shows "map (read_pixel (concat (map bgr_pixel r)) c) (py_range (int (length r))) = r"
proof (rule nth_equalityI)
  show "length (map (read_pixel (concat (map bgr_pixel r)) c) (py_range (int (length r))))
      = length r" by simp
next
  fix x assume "x < length (map (read_pixel (concat (map bgr_pixel r)) c)
      (py_range (int (length r))))"
  then have x: "x < length r" by simp
  have "py_slice (concat (map bgr_pixel r)) (int x * c) (int x * c + c) = bgr_pixel (r ! x)"
    unfolding py_slice_row [OF assms(2)] using assms(1) x by (intro row_of_concat) simp_all
  then show "map (read_pixel (concat (map bgr_pixel r)) c) (py_range (int (length r))) ! x
      = r ! x"
    using x by (simp add: read_pixel_def)
qed

lemma displayed_row_encode_image:
  assumes "valid_image im" and "0 \<le> y" and "y < img_height im"
  shows "displayed_row (encode_image im) (img_width im) (img_height im)
      (8 * img_channels im) y = concat (map bgr_pixel (image_rows im ! nat y))"
proof -
  let ?w = "img_width im" and ?h = "img_height im" and ?c = "img_channels im"
  let ?K = "padded_row_size ?w ?c" and ?rows = "rev (image_rows im)"
  define i where "i = nat (?h - 1 - y)"
  from assms have v: "0 < ?w" "0 < ?c" by (auto simp: valid_image_def)
  then have wc: "0 \<le> ?w * ?c" by simp
  with row_data_le_padded [of ?w ?c] have K: "0 \<le> ?K" by linarith
  from assms(2,3) have i: "i < length ?rows" "int i = ?h - 1 - y" by (simp_all add: i_def)
  have len: "length (encode_row im r) = nat ?K" if "r \<in> set ?rows" for r
    using length_encode_row [OF assms(1), of r] that by (metis nat_int py_len_def set_rev)
  have c8: "8 * ?c div 8 = ?c" by simp
  have inside: "int i * ?K + ?w * ?c \<le> int (length (encode_pixels im))"
  proof -
    from i(1) have "int (Suc i) \<le> ?h" by simp
    then have "int (Suc i) * ?K \<le> ?h * ?K" using K by (intro mult_right_mono)
    then show ?thesis
      using row_data_le_padded [of ?w ?c] length_encode_pixels [OF assms(1)]
      by (simp add: py_len_def algebra_simps)
  qed
  have "read_row (encode_image im) ?w (8 * ?c) (int i)
      = drop (nat (int i * ?K)) (take (nat (int i * ?K + ?w * ?c)) (encode_pixels im))"
    unfolding read_row_def c8 padded_row_size_stride [symmetric] encode_image_def add.assoc
    using K wc inside by (intro py_slice_inside) simp_all
  also have "\<dots> = drop (i * nat ?K) (take (i * nat ?K + nat (?w * ?c))
      (concat (map (encode_row im) ?rows)))"
    using K wc by (simp add: encode_pixels_def nat_add_distrib nat_mult_distrib)
  also have "\<dots> = take (nat (?w * ?c)) (encode_row im (?rows ! i))"
    using len i(1) row_data_le_padded [of ?w ?c] by (intro stored_row_prefix) simp_all
  also have "?rows ! i = image_rows im ! nat y"
  proof -
    have "length (image_rows im) - Suc i = nat y" using assms(2,3) by (simp add: i_def)
    then show ?thesis using i(1) by (simp add: rev_nth)
  qed
  finally show ?thesis
    using assms i by (simp add: displayed_row_def take_encode_row)
qed

lemma read_pixels_encode_image:
  assumes "valid_image im"
  shows "read_pixels (encode_image im) (img_width im) (img_height im) (img_channels im)
    = img_pixels im"
proof -
  let ?w = "img_width im" and ?h = "img_height im" and ?c = "img_channels im"
  from assms have c: "0 \<le> ?c" by (auto simp: valid_image_def)
  have "map (read_pixel (displayed_row (encode_image im) ?w ?h (8 * ?c) y) ?c) (py_range ?w)
      = image_rows im ! nat y" if "y \<in> set (py_range ?h)" for y
  proof -
    from that have y: "0 \<le> y" "y < ?h" by simp_all
    then have r: "image_rows im ! nat y \<in> set (image_rows im)" by simp
    from length_image_row [OF assms r] assms
    have len: "int (length (image_rows im ! nat y)) = ?w" by (simp add: valid_image_def)
    show ?thesis
      unfolding displayed_row_encode_image [OF assms y]
      using read_pixel_row [of "image_rows im ! nat y" ?c, unfolded len]
        length_image_pixel [OF assms r] c
      by simp
  qed
  then have "read_pixels (encode_image im) ?w ?h ?c
      = concat (map (\<lambda>y. image_rows im ! nat y) (py_range ?h))"
    unfolding read_pixels_def by (intro arg_cong [where f = concat] map_cong) simp_all
  also have "map (\<lambda>y. image_rows im ! nat y) (py_range ?h) = image_rows im"
    by (intro nth_equalityI) simp_all
  finally show ?thesis by (simp add: concat_image_rows [OF assms])
qed

lemma read_bmp_header_encode:
  assumes "valid_image im" and "img_width im < 2 ^ 32" and "img_height im * 2 < 2 ^ 32"
  shows "read_bmp_header (encode_header im @ rest)
    = Inr [40, img_width im, img_height im * 2, 1, 8 * img_channels im, 0, 0, 0, 0, 0, 0]"
proof -
  from assms have "pack ''<IIIHHIIIIII''
      [40, img_width im, img_height im * 2, 1, 8 * img_channels im, 0, 0, 0, 0, 0, 0]
    = Inr (encode_header im)"
    by (auto simp: valid_image_def encode_header_def pack_unfold format_eval)
  then show ?thesis by (rule read_bmp_header_pack)
qed

text \<open>What the encoder wrote for an image, the decoder reads back.\<close>

lemma decode_encode_image:
  assumes "valid_image im" and "img_width im < 2 ^ 32" and "img_height im * 2 < 2 ^ 32"
  shows "decode_image (encode_image im) = Inr im"
proof -
  have "read_bmp_header (encode_image im)
      = Inr [40, img_width im, img_height im * 2, 1, 8 * img_channels im, 0, 0, 0, 0, 0, 0]"
    unfolding encode_image_def by (rule read_bmp_header_encode [OF assms])
  then show ?thesis
    by (simp add: decode_image_def read_pixels_encode_image [OF assms(1)])
qed

section \<open>The properties the format description lists\<close>

text \<open>The example: one red pixel with alpha.\<close>

lemma encode_example:
  "encode [\<lparr>img_width = 1, img_height = 1, img_channels = 4,
            img_pixels = [[255, 0, 0, 255]]\<rparr>]
    = Inr ([0, 0, 1, 0, 1, 0,
            1, 1, 0, 0, 1, 0, 32, 0, 48, 0, 0, 0, 22, 0, 0, 0,
            40, 0, 0, 0, 1, 0, 0, 0, 2, 0, 0, 0, 1, 0, 32, 0] @ replicate 24 0
           @ [0, 0, 255, 255] @ [0, 0, 0, 0])"
  by code_simp

lemma encode_empty: "encode [] = Inl InvalidImageError"
  by (simp add: encode_def)

lemma encode_mismatch:
  "py_len (img_pixels im) \<noteq> img_width im * img_height im \<Longrightarrow>
     encode (ims @ im # ims') = Inl InvalidImageError"
  by (simp add: encode_def valid_image_def)

lemma encode_nonpositive:
  "img_width im \<le> 0 \<or> img_height im \<le> 0 \<Longrightarrow>
     encode (ims @ im # ims') = Inl InvalidImageError"
  by (auto simp: encode_def valid_image_def)

lemma encode_returns_iff:
  "(\<exists>file. encode ims = Inr file) \<longleftrightarrow> ims \<noteq> [] \<and> list_all valid_image ims"
  by (simp add: encode_def)

lemma padded_row_size_multiple_of_4: "padded_row_size width c mod 4 = 0"
  by (simp add: padded_row_size_def)

text \<open>Two valid images with the same encoding are the same image.\<close>

lemma encode_image_inj:
  assumes "valid_image a" and "img_width a < 2 ^ 32" and "img_height a * 2 < 2 ^ 32"
    and "valid_image b" and "img_width b < 2 ^ 32" and "img_height b * 2 < 2 ^ 32"
    and "encode_image a = encode_image b"
  shows "a = b"
proof -
  have "Inr a = decode_image (encode_image a)"
    by (simp only: decode_encode_image [OF assms(1-3)])
  also have "\<dots> = decode_image (encode_image b)" by (simp only: assms(7))
  also have "\<dots> = Inr b" by (rule decode_encode_image [OF assms(4-6)])
  finally show ?thesis by (simp only: sum.inject)
qed

section \<open>The round trip of the container\<close>

lemma images_len_simps [simp]:
  "images_len [] = 0"
  "images_len (im # ims) = py_len (encode_image im) + images_len ims"
  "images_len (ims @ ims') = images_len ims + images_len ims'"
  by (simp_all add: images_len_def py_len_def)

lemma images_len_nonneg [simp]: "0 \<le> images_len ims"
  by (simp add: images_len_def py_len_def)

lemma images_len_take_nth:
  assumes "i < length ims"
  shows "images_len (take i ims) + py_len (encode_image (ims ! i)) \<le> images_len ims"
proof -
  have "images_len (take i ims @ ims ! i # drop (Suc i) ims)
      = images_len (take i ims) + py_len (encode_image (ims ! i)) + images_len (drop (Suc i) ims)"
    by (simp only: images_len_simps)
  with assms images_len_nonneg [of "drop (Suc i) ims"] show ?thesis
    by (simp add: id_take_nth_drop [symmetric])
qed

lemma encode_directory_entry:
  assumes "i < length ims"
  shows "drop (i * 16) (take (Suc i * 16) (encode_directory off ims))
      = encode_entry (ims ! i) (py_len (encode_image (ims ! i))) (off + images_len (take i ims))"
  using assms
proof (induction ims arbitrary: off i)
  case Nil
  then show ?case by simp
next
  case (Cons im ims)
  show ?case
  proof (cases i)
    case 0
    then show ?thesis by simp
  next
    case (Suc j)
    with Cons.prems have "j < length ims" by simp
    from Cons.IH [OF this, of "off + py_len (encode_image im)"] Suc show ?thesis
      by (simp add: add.assoc)
  qed
qed

lemma unpack_encode_entry:
  assumes "valid_image im" and "0 \<le> sz" and "sz < 2 ^ 32" and "0 \<le> off" and "off < 2 ^ 32"
  shows "unpack ''<BBBBHHII'' (encode_entry im sz off)
      = Inr [dir_dim (img_width im), dir_dim (img_height im), 0, 0, 1, 8 * img_channels im,
             sz, off]"
proof -
  from assms have "pack ''<BBBBHHII''
      [dir_dim (img_width im), dir_dim (img_height im), 0, 0, 1, 8 * img_channels im, sz, off]
    = Inr (encode_entry im sz off)"
    by (auto simp: valid_image_def encode_entry_def dir_dim_def pack_unfold format_eval)
  then show ?thesis by (rule unpack_pack)
qed


lemma encode_Inr:
  assumes "encode ims = Inr file"
  shows "file = (le_bytes 2 0 @ le_bytes 2 1 @ le_bytes 2 (py_len ims))
           @ encode_directory (6 + 16 * py_len ims) ims @ concat (map encode_image ims)"
    and "list_all valid_image ims"
  using assms by (simp_all add: encode_def split: if_splits)

lemma py_len_encode:
  assumes "encode ims = Inr file"
  shows "py_len file = 6 + 16 * py_len ims + images_len ims"
  unfolding encode_Inr(1) [OF assms] by (simp add: py_len_def images_len_def)

lemma encoded_bounds:
  assumes "encode ims = Inr file" and "py_len file < 2 ^ 32" and "i < length ims"
  shows "0 \<le> encoded_offset ims i" and "encoded_offset ims i < 2 ^ 32"
    and "py_len (encode_image (ims ! i)) < 2 ^ 32"
proof -
  note len = py_len_encode [OF assms(1)] and le = images_len_take_nth [OF assms(3)]
  have n: "0 \<le> py_len ims" "0 \<le> py_len (encode_image (ims ! i))"
    "0 \<le> images_len (take i ims)"
    by (simp_all add: py_len_def)
  from n show "0 \<le> encoded_offset ims i"
    by (simp add: encoded_offset_def)
  from n le len assms(2) show "encoded_offset ims i < 2 ^ 32"
    unfolding encoded_offset_def by linarith
  from n le len assms(2) show "py_len (encode_image (ims ! i)) < 2 ^ 32"
    by linarith
qed

lemma read_entry_encode:
  assumes "encode ims = Inr file" and "py_len file < 2 ^ 32" and "i < length ims"
  shows "read_entry file (int i)
      = Inr [dir_dim (img_width (ims ! i)), dir_dim (img_height (ims ! i)), 0, 0, 1,
             8 * img_channels (ims ! i), py_len (encode_image (ims ! i)), encoded_offset ims i]"
proof -
  let ?hdr = "le_bytes 2 0 @ le_bytes 2 1 @ le_bytes 2 (py_len ims)"
  let ?dir = "encode_directory (6 + 16 * py_len ims) ims"
  note bytes = encode_Inr(1) [OF assms(1)]
  from encode_Inr(2) [OF assms(1)] assms(3) have valid: "valid_image (ims ! i)"
    by (simp add: list_all_length)
  have "py_slice file (6 + 16 * int i) (22 + 16 * int i)
      = drop (6 + 16 * i) (take (22 + 16 * i) (?hdr @ ?dir @ concat (map encode_image ims)))"
    by (simp add: py_slice_nonneg bytes nat_add_distrib nat_mult_distrib)
  also have "\<dots> = drop (i * 16) (take (Suc i * 16) ?dir)"
    using assms(3) by (simp add: mult.commute)
  also have "\<dots> = encode_entry (ims ! i) (py_len (encode_image (ims ! i))) (encoded_offset ims i)"
    unfolding encoded_offset_def using assms(3) by (rule encode_directory_entry)
  finally have "read_entry file (int i) = unpack ''<BBBBHHII''
      (encode_entry (ims ! i) (py_len (encode_image (ims ! i))) (encoded_offset ims i))"
    by (simp add: read_entry_def)
  also have "\<dots> = Inr [dir_dim (img_width (ims ! i)), dir_dim (img_height (ims ! i)), 0, 0, 1,
             8 * img_channels (ims ! i), py_len (encode_image (ims ! i)), encoded_offset ims i]"
    using valid encoded_bounds [OF assms] by (intro unpack_encode_entry) (simp_all add: py_len_def)
  finally show ?thesis .
qed

lemma image_slice_encode:
  assumes "encode ims = Inr file" and "i < length ims"
  shows "py_slice file (encoded_offset ims i)
           (encoded_offset ims i + py_len (encode_image (ims ! i))) = encode_image (ims ! i)"
proof -
  let ?pre = "le_bytes 2 0 @ le_bytes 2 1 @ le_bytes 2 (py_len ims)
      @ encode_directory (6 + 16 * py_len ims) ims @ concat (map encode_image (take i ims))"
  have "concat (map encode_image ims) = concat (map encode_image (take i ims))
      @ encode_image (ims ! i) @ concat (map encode_image (drop (Suc i) ims))"
    using assms(2) by (subst id_take_nth_drop [of i ims]) simp_all
  then have "file = ?pre @ encode_image (ims ! i) @ concat (map encode_image (drop (Suc i) ims))"
    by (simp add: encode_Inr(1) [OF assms(1)])
  moreover have "encoded_offset ims i = int (length ?pre)"
    by (simp add: encoded_offset_def images_len_def py_len_def)
  ultimately show ?thesis
    by (simp only: py_len_def py_slice_middle)
qed

lemma read_image_encode:
  assumes "encode ims = Inr file" and "py_len file < 2 ^ 32" and "i < length ims"
  shows "read_image file (int i) = Inr (encode_image (ims ! i))"
  by (simp add: read_image_def read_entry_encode [OF assms] entry_offset_def entry_size_def
      image_slice_encode [OF assms(1,3)])

lemma valid_image_fits:
  assumes "valid_image im" and "py_len (encode_image im) < 2 ^ 32"
  shows "img_width im < 2 ^ 32" and "img_height im * 2 < 2 ^ 32"
proof -
  let ?w = "img_width im" and ?h = "img_height im" and ?c = "img_channels im"
  from assms(1) have w: "1 \<le> ?w" and h: "1 \<le> ?h" and c: "3 \<le> ?c"
    by (auto simp: valid_image_def)
  from w have m: "0 \<le> mask_stride ?w * ?h"
    using h by (simp add: mask_stride_def pos_imp_zdiv_nonneg_iff)
  from w c have "3 * ?w \<le> ?w * ?c" by simp
  also have "\<dots> \<le> padded_row_size ?w ?c" by (rule row_data_le_padded)
  finally have p: "3 * ?w \<le> padded_row_size ?w ?c" .
  with w h have "3 * ?w * 1 \<le> padded_row_size ?w ?c * ?h"
    by (intro mult_mono) simp_all
  moreover from p w h have "3 * 1 * ?h \<le> padded_row_size ?w ?c * ?h"
    by (intro mult_mono) simp_all
  ultimately have "3 * ?w < 2 ^ 32 \<and> 3 * ?h < 2 ^ 32"
    using assms(2) m unfolding length_encode_image [OF assms(1)] by simp
  with w h show "?w < 2 ^ 32" and "?h * 2 < 2 ^ 32"
    by simp_all
qed

lemma read_header_encode:
  assumes "encode ims = Inr file" and "py_len ims < 65536"
  shows "read_header file = Inr [0, 1, py_len ims]"
proof -
  from assms(2) have "pack ''<HHH'' [0, 1, py_len ims]
      = Inr (le_bytes 2 0 @ le_bytes 2 1 @ le_bytes 2 (py_len ims))"
    by (simp add: pack_unfold format_eval py_len_def)
  then show ?thesis
    unfolding encode_Inr(1) [OF assms(1)] by (rule read_header_pack)
qed

text \<open>
  The round trip the format description promises: whatever list of images
  the encoder accepts, a file below 4 GiB decodes at every index to the image
  that was put in, with its dimensions, its channel count and every pixel.
\<close>

theorem decode_encode:
  assumes "encode ims = Inr file" and "py_len file < 2 ^ 32" and "i < length ims"
  shows "decode file (int i) = Inr (ims ! i)"
proof -
  from encode_Inr(2) [OF assms(1)] assms(3) have valid: "valid_image (ims ! i)"
    by (simp add: list_all_length)
  note fits = valid_image_fits [OF valid encoded_bounds(3) [OF assms]]
  show ?thesis
    by (simp add: decode_def read_image_encode [OF assms] decode_encode_image [OF valid fits])
qed

theorem decode_encode_witness:
  "\<exists>file. encode [\<lparr>img_width = 1, img_height = 1, img_channels = 4,
                     img_pixels = [[255, 0, 0, 255]]\<rparr>] = Inr file
     \<and> decode file 0 = Inr \<lparr>img_width = 1, img_height = 1, img_channels = 4,
                               img_pixels = [[255, 0, 0, 255]]\<rparr>"
  using decode_encode [OF encode_example, of 0]
  by (simp add: encode_example py_len_def)

end
