(* ===== verification/Multi_Size_Image.thy ===== *)
theory Multi_Size_Image
  imports Py_Struct Py_Float Ico_Format
begin

text \<open>
  Model of the function \<open>create_icon_data\<close> of
  \<^verbatim>\<open>src/ClipD/resources/create_multi_size_icon.py\<close>, which builds one image of
  32 bits per pixel: the 40-byte \<^verbatim>\<open>BITMAPINFOHEADER\<close> (\<open>bmp_header\<close>), the pixel
  loop (\<open>icon_pixels\<close> over \<open>icon_pixel\<close>, which is \<open>gradient\<close> overdrawn by
  \<open>draw_clipboard\<close>), the row alignment loop (\<open>aligned_rows\<close>) and the AND mask
  (\<open>and_mask\<close>).

  Every \<^verbatim>\<open>struct.pack\<close> call, \<^verbatim>\<open>bytes()\<close> conversion and division can raise in
  Python, so each function returns \<open>py_error + _\<close>; the theorems say when
  \<open>create_icon_data\<close> raises (\<open>valid_dims\<close>), what the bytes are when it does
  not (\<open>image_bytes\<close>), and what a reader of \<open>Ico_Format\<close> finds in them.
\<close>

section \<open>One image: create_icon_data\<close>

definition bmp_header :: "int \<Rightarrow> int \<Rightarrow> bytes result" where
  "bmp_header width height =
     pack ''<IIIHHIIIIII'' [40, width, height * 2, 1, 32, 0, 0, 0, 0, 0, 0]"

definition gradient :: "rat \<Rightarrow> rat \<Rightarrow> (int \<times> int \<times> int) result" where
  "gradient fx fy =
     (let r = py_int (fadd (float_of_int 102) (fmul (float_of_int (118 - 102)) fx));
          g = py_int (fadd (float_of_int 126) (fmul (float_of_int (75 - 126)) fy))
      in bind_res (fdiv (fmul (float_of_int (162 - 234)) (fadd fx fy)) (float_of_int 2))
           (\<lambda>h. Inr (r, g, py_int (fadd (float_of_int 234) h))))"

definition in_box :: "rat \<Rightarrow> rat \<Rightarrow> rat \<Rightarrow> rat \<Rightarrow> rat \<Rightarrow> rat \<Rightarrow> bool" where
  "in_box x0 x1 y0 y1 fx fy \<longleftrightarrow> fl x0 \<le> fx \<and> fx \<le> fl x1 \<and> fl y0 \<le> fy \<and> fy \<le> fl y1"

definition draw_clipboard :: "rat \<Rightarrow> rat \<Rightarrow> int \<times> int \<times> int \<Rightarrow> int \<times> int \<times> int" where
  "draw_clipboard fx fy rgb =
     (if in_box (3/10) (75/100) (2/10) (85/100) fx fy then
        if in_box (4/10) (6/10) (15/100) (35/100) fx fy then (70, 70, 75)
        else if in_box (35/100) (7/10) (55/100) (7/10) fx fy then (102, 126, 234)
        else (245, 245, 245)
      else rgb)"

definition icon_pixel :: "int \<Rightarrow> int \<Rightarrow> int \<Rightarrow> int \<Rightarrow> int list result" where
  "icon_pixel width height y x =
     bind_res (py_truediv x width) (\<lambda>fx.
     bind_res (py_truediv y height) (\<lambda>fy.
     bind_res (gradient fx fy) (\<lambda>rgb.
       let a = 255; (r, g, b) = draw_clipboard fx fy rgb
       in Inr [b, g, r, a])))"

definition icon_pixels :: "int \<Rightarrow> int \<Rightarrow> int list result" where
  "icon_pixels width height =
     for_res (py_range height) (\<lambda>y pixels.
       for_res (py_range width) (\<lambda>x pixels.
         bind_res (icon_pixel width height y x) (\<lambda>px. Inr (pixels @ px))) pixels) []"

definition aligned_rows :: "bytes \<Rightarrow> int \<Rightarrow> int \<Rightarrow> bytes" where
  "aligned_rows pixel_data width height =
     (let bytes_per_pixel = 4;
          row_size = ((width * bytes_per_pixel + 3) div 4) * 4
      in fold (\<lambda>y aligned_pixels.
           let row_start = y * width * bytes_per_pixel;
               row_end = row_start + width * bytes_per_pixel;
               row_data = py_slice pixel_data row_start row_end;
               padding = row_size - (width * bytes_per_pixel)
           in aligned_pixels @ row_data @ py_repeat [0] padding)
         (py_range height) [])"

definition and_mask :: "int \<Rightarrow> int \<Rightarrow> bytes" where
  "and_mask width height =
     (let and_mask_size = ((width + 31) div 32) * 4 * height
      in py_repeat [0] and_mask_size)"

definition create_icon_data :: "int \<Rightarrow> int \<Rightarrow> bytes result" where
  "create_icon_data width height =
     bind_res (bmp_header width height) (\<lambda>hdr.
     bind_res (icon_pixels width height) (\<lambda>pixels.
     bind_res (py_bytes pixels) (\<lambda>pixel_data.
       Inr (hdr @ aligned_rows pixel_data width height @ and_mask width height))))"

section \<open>Derived notions\<close>

text \<open>
  The ranges the colour channels stay in, the three fixed colours of the
  clipboard drawing, the pixel a successful call of \<open>icon_pixel\<close> returns and
  the rows of the image. They are used to state the theorems; none of them is
  part of the script.
\<close>

definition gradient_range :: "int \<times> int \<times> int \<Rightarrow> bool" where
  "gradient_range rgb \<longleftrightarrow>
     (case rgb of (r, g, b) \<Rightarrow> 102 \<le> r \<and> r \<le> 118 \<and> 75 \<le> g \<and> g \<le> 126 \<and> 162 \<le> b \<and> b \<le> 234)"

definition palette :: "(int \<times> int \<times> int) list" where
  "palette = [(70, 70, 75), (102, 126, 234), (245, 245, 245)]"

definition bgra :: "int \<Rightarrow> int \<Rightarrow> int \<Rightarrow> int \<Rightarrow> int list" where
  "bgra width height y x = (case icon_pixel width height y x of Inr px \<Rightarrow> px | Inl _ \<Rightarrow> [])"

definition pixel_rows :: "int \<Rightarrow> int \<Rightarrow> int list list" where
  "pixel_rows width height =
     map (\<lambda>y. concat (map (bgra width height y) (py_range width))) (py_range height)"

text \<open>
  What \<open>create_icon_data\<close> returns when it returns: \<open>header_bytes\<close>, then the
  pixels \<open>pixel_bytes\<close>, then \<open>mask_size\<close> zero bytes; \<open>valid_dims\<close> are the
  dimensions for which it does.
\<close>

definition valid_dims :: "int \<Rightarrow> int \<Rightarrow> bool" where
  "valid_dims width height \<longleftrightarrow> 0 \<le> width \<and> width < 2 ^ 32 \<and> 0 \<le> height \<and> height * 2 < 2 ^ 32"

definition header_bytes :: "int \<Rightarrow> int \<Rightarrow> bytes" where
  "header_bytes width height =
     le_bytes 4 40 @ le_bytes 4 width @ le_bytes 4 (height * 2) @ le_bytes 2 1 @ le_bytes 2 32
       @ replicate 24 0"

definition pixel_bytes :: "int \<Rightarrow> int \<Rightarrow> bytes" where
  "pixel_bytes width height = map word_of_int (concat (pixel_rows width height))"

definition mask_size :: "int \<Rightarrow> int \<Rightarrow> int" where
  "mask_size width height = ((width + 31) div 32) * 4 * height"

definition image_bytes :: "int \<Rightarrow> int \<Rightarrow> bytes" where
  "image_bytes width height =
     header_bytes width height @ pixel_bytes width height
       @ replicate (nat (mask_size width height)) 0"

definition image_size :: "int \<Rightarrow> int \<Rightarrow> int" where
  "image_size width height = 40 + 4 * width * height + mask_size width height"

section \<open>The bitmap header\<close>

lemma bmp_header_ok [py_ok]:
  assumes "0 \<le> width" "width < 2 ^ 32" "0 \<le> height" "height * 2 < 2 ^ 32"
  shows "bmp_header width height =
    Inr (le_bytes 4 40 @ le_bytes 4 width @ le_bytes 4 (height * 2) @ le_bytes 2 1 @ le_bytes 2 32
         @ replicate 24 0)"
  using assms by (simp add: bmp_header_def pack_unfold format_eval)

lemma bmp_header_raises:
  assumes "\<not> (0 \<le> width \<and> width < 2 ^ 32 \<and> 0 \<le> height \<and> height * 2 < 2 ^ 32)"
  shows "bmp_header width height = Inl StructError"
  using assms by (auto simp add: bmp_header_def pack_unfold format_eval)

lemma length_bmp_header [py_length]: "bmp_header width height = Inr hdr \<Longrightarrow> length hdr = 40"
  by (auto simp: bmp_header_def format_eval dest: pack_length)

section \<open>Pixels\<close>

lemma red_channel:
  assumes "0 \<le> fx" "fx \<le> 1"
  defines "r \<equiv> py_int (fadd (float_of_int 102) (fmul (float_of_int (118 - 102)) fx))"
  shows "102 \<le> r" "r \<le> 118"
proof -
  have t: "0 \<le> fl (16 * fx)" "fl (16 * fx) \<le> 16"
    using fl_between [of 0 "16 * fx" 16] assms by simp_all
  then have "102 \<le> fl (102 + fl (16 * fx))" "fl (102 + fl (16 * fx)) \<le> 118"
    using fl_between [of 102 "102 + fl (16 * fx)" 118] by simp_all
  then show "102 \<le> r" "r \<le> 118"
    using py_int_ge [of 102] py_int_le [of _ 118] by (simp_all add: r_def fadd_def fmul_def)
qed

lemma green_channel:
  assumes "0 \<le> fy" "fy \<le> 1"
  defines "g \<equiv> py_int (fadd (float_of_int 126) (fmul (float_of_int (75 - 126)) fy))"
  shows "75 \<le> g" "g \<le> 126"
proof -
  have t: "- 51 \<le> fl (- 51 * fy)" "fl (- 51 * fy) \<le> 0"
    using fl_between [of "- 51" "- 51 * fy" 0] assms by simp_all
  then have "75 \<le> fl (126 + fl (- 51 * fy))" "fl (126 + fl (- 51 * fy)) \<le> 126"
    using fl_between [of 75 "126 + fl (- 51 * fy)" 126] by simp_all
  then show "75 \<le> g" "g \<le> 126"
    using py_int_ge [of 75] py_int_le [of _ 126] by (simp_all add: g_def fadd_def fmul_def)
qed

lemma blue_channel:
  assumes "0 \<le> fx" "fx \<le> 1" "0 \<le> fy" "fy \<le> 1"
  shows "\<exists>h. fdiv (fmul (float_of_int (162 - 234)) (fadd fx fy)) (float_of_int 2) = Inr h
    \<and> 162 \<le> py_int (fadd (float_of_int 234) h) \<and> py_int (fadd (float_of_int 234) h) \<le> 234"
proof -
  have s: "0 \<le> fl (fx + fy)" "fl (fx + fy) \<le> 2"
    using fl_between [of 0 "fx + fy" 2] assms by simp_all
  then have p: "- 144 \<le> fl (- 72 * fl (fx + fy))" "fl (- 72 * fl (fx + fy)) \<le> 0"
    using fl_between [of "- 144" "- 72 * fl (fx + fy)" 0] by simp_all
  then have h: "- 72 \<le> fl (fl (- 72 * fl (fx + fy)) / 2)" "fl (fl (- 72 * fl (fx + fy)) / 2) \<le> 0"
    using fl_between [of "- 72" "fl (- 72 * fl (fx + fy)) / 2" 0] by simp_all
  then have "162 \<le> fl (234 + fl (fl (- 72 * fl (fx + fy)) / 2))"
    "fl (234 + fl (fl (- 72 * fl (fx + fy)) / 2)) \<le> 234"
    using fl_between [of 162 "234 + fl (fl (- 72 * fl (fx + fy)) / 2)" 234] by simp_all
  then show ?thesis
    using py_int_ge [of 162] py_int_le [of _ 234] by (simp add: fadd_def fmul_def fdiv_def)
qed


lemma gradient_ok:
  assumes "0 \<le> fx" "fx \<le> 1" "0 \<le> fy" "fy \<le> 1"
  shows "\<exists>rgb. gradient fx fy = Inr rgb \<and> gradient_range rgb"
  using red_channel [OF assms(1,2)] green_channel [OF assms(3,4)] blue_channel [OF assms]
  by (auto simp: gradient_def gradient_range_def Let_def)

lemma draw_clipboard_cases:
  "draw_clipboard fx fy rgb = rgb \<or> draw_clipboard fx fy rgb \<in> set palette"
  by (simp add: draw_clipboard_def palette_def)

lemma gradient_range_bytes:
  "gradient_range (r, g, b) \<Longrightarrow> list_all is_byte_value [b, g, r, 255]"
  by (simp add: gradient_range_def is_byte_value_def)

lemma palette_bytes:
  "(r, g, b) \<in> set palette \<Longrightarrow> list_all is_byte_value [b, g, r, 255]"
  by (auto simp: palette_def)

lemma icon_pixel_ok:
  assumes "0 \<le> x" "x < width" "0 \<le> y" "y < height"
  shows "\<exists>r g b. icon_pixel width height y x = Inr [b, g, r, 255]
           \<and> (gradient_range (r, g, b) \<or> (r, g, b) \<in> set palette)"
proof -
  let ?fx = "fl (of_int x / of_int width)" and ?fy = "fl (of_int y / of_int height)"
  from assms have d: "py_truediv x width = Inr ?fx" "py_truediv y height = Inr ?fy"
    by (simp_all add: py_truediv_ok)
  from gradient_ok [OF unit_fraction [OF assms(1,2)] unit_fraction [OF assms(3,4)]]
  obtain rgb where rgb: "gradient ?fx ?fy = Inr rgb" "gradient_range rgb" by blast
  obtain r g b where c: "draw_clipboard ?fx ?fy rgb = (r, g, b)"
    by (cases "draw_clipboard ?fx ?fy rgb")
  with draw_clipboard_cases [of ?fx ?fy rgb] rgb(2)
  have "gradient_range (r, g, b) \<or> (r, g, b) \<in> set palette" by auto
  then show ?thesis by (simp add: icon_pixel_def d rgb(1) c)
qed

lemma icon_pixel_bgra:
  assumes "0 \<le> x" "x < width" "0 \<le> y" "y < height"
  shows "icon_pixel width height y x = Inr (bgra width height y x)"
  using icon_pixel_ok [OF assms] by (auto simp: bgra_def)

lemma bgra_bytes:
  assumes "0 \<le> x" "x < width" "0 \<le> y" "y < height"
  shows "length (bgra width height y x) = 4" "list_all is_byte_value (bgra width height y x)"
    "bgra width height y x ! 3 = 255"
  using icon_pixel_ok [OF assms] gradient_range_bytes palette_bytes
  by (auto simp: bgra_def)

text \<open>A zero width would raise, but no loop reaches the division then.\<close>

lemma icon_pixel_zero:
  "icon_pixel 0 height y x = Inl ZeroDivisionError"
  "0 \<le> x \<Longrightarrow> x < width \<Longrightarrow> icon_pixel width 0 y x = Inl ZeroDivisionError"
  by (simp_all add: icon_pixel_def py_truediv_ok)

lemma icon_pixels_ok: "icon_pixels width height = Inr (concat (pixel_rows width height))"
proof -
  have inner: "for_res (py_range width) (\<lambda>x pixels.
         bind_res (icon_pixel width height y x) (\<lambda>px. Inr (pixels @ px))) acc
      = Inr (acc @ concat (map (bgra width height y) (py_range width)))"
    if "y \<in> set (py_range height)" for y acc
  proof -
    have "for_res (py_range width) (\<lambda>x pixels.
         bind_res (icon_pixel width height y x) (\<lambda>px. Inr (pixels @ px))) acc
      = Inr (fold (\<lambda>x pixels. pixels @ bgra width height y x) (py_range width) acc)"
      using that by (intro for_res_pure) (simp add: icon_pixel_bgra)
    then show ?thesis by (simp add: fold_extend)
  qed
  have "icon_pixels width height
      = Inr (fold (\<lambda>y pixels. pixels @ concat (map (bgra width height y) (py_range width)))
               (py_range height) [])"
    unfolding icon_pixels_def by (intro for_res_pure) (simp add: inner)
  then show ?thesis by (simp add: fold_extend pixel_rows_def)
qed


lemma length_pixel_row:
  assumes "y \<in> set (py_range height)"
  shows "length (concat (map (bgra width height y) (py_range width))) = 4 * nat width"
  using assms by (subst length_concat_map_const [where k = 4]) (simp_all add: bgra_bytes)

lemma length_pixel_rows [simp]: "length (pixel_rows width height) = nat height"
  by (simp add: pixel_rows_def)

lemma length_concat_pixel_rows:
  "length (concat (pixel_rows width height)) = 4 * nat width * nat height"
  unfolding pixel_rows_def
  by (subst length_concat_map_const [where k = "4 * nat width"]) (simp_all add: length_pixel_row)

lemma pixel_rows_bytes: "list_all is_byte_value (concat (pixel_rows width height))"
proof -
  have "is_byte_value v"
    if "y \<in> set (py_range height)" "x \<in> set (py_range width)" "v \<in> set (bgra width height y x)"
    for y x v
  proof -
    from that(1,2) have "list_all is_byte_value (bgra width height y x)"
      by (intro bgra_bytes) simp_all
    with that(3) show ?thesis by (simp add: list_all_iff)
  qed
  then show ?thesis by (auto simp: pixel_rows_def list_all_iff)
qed

section \<open>Row alignment and mask\<close>

lemma row_size_32bpp: "((width * 4 + 3) div 4) * 4 = width * (4::int)"
  by simp

lemma aligned_rows_take:
  assumes "0 \<le> width"
  shows "aligned_rows pixel_data width height = take (nat height * (nat width * 4)) pixel_data"
proof -
  have slice: "py_slice pixel_data (int i * width * 4) (int i * width * 4 + width * 4)
      = drop (i * (nat width * 4)) (take (i * (nat width * 4) + nat width * 4) pixel_data)" for i
    using assms
    by (simp add: py_slice_nonneg nat_mult_distrib nat_add_distrib mult.assoc)
  have "aligned_rows pixel_data width height
      = concat (map (\<lambda>y. py_slice pixel_data (y * width * 4) (y * width * 4 + width * 4))
          (py_range height))"
    by (simp add: aligned_rows_def Let_def fold_extend)
  also have "\<dots> = concat (map (\<lambda>i. drop (i * (nat width * 4))
      (take (i * (nat width * 4) + nat width * 4) pixel_data)) [0..<nat height])"
    by (simp add: py_range_def comp_def slice)
  finally show ?thesis by (simp only: concat_slices)
qed


section \<open>create_icon_data\<close>

lemma length_header_bytes [simp]: "length (header_bytes width height) = 40"
  by (simp add: header_bytes_def)

lemma length_pixel_bytes [simp]:
  "length (pixel_bytes width height) = 4 * nat width * nat height"
  by (simp add: pixel_bytes_def length_concat_pixel_rows)

lemma and_mask_replicate: "and_mask width height = replicate (nat (mask_size width height)) 0"
  by (simp add: and_mask_def mask_size_def py_repeat_single)

lemma py_bytes_pixel_rows:
  "py_bytes (concat (pixel_rows width height)) = Inr (pixel_bytes width height)"
  by (simp add: py_bytes_ok pixel_rows_bytes pixel_bytes_def)

lemma aligned_rows_pixel_bytes:
  "0 \<le> width \<Longrightarrow> aligned_rows (pixel_bytes width height) width height = pixel_bytes width height"
  by (simp add: aligned_rows_take mult.commute mult.left_commute)

lemma create_icon_data_ok:
  assumes "valid_dims width height"
  shows "create_icon_data width height = Inr (image_bytes width height)"
proof -
  from assms have "bmp_header width height = Inr (header_bytes width height)"
    by (simp add: valid_dims_def bmp_header_ok header_bytes_def)
  moreover from assms have "0 \<le> width" by (simp add: valid_dims_def)
  ultimately show ?thesis
    by (simp add: create_icon_data_def icon_pixels_ok py_bytes_pixel_rows
        aligned_rows_pixel_bytes and_mask_replicate image_bytes_def)
qed

lemma create_icon_data_raises:
  assumes "\<not> valid_dims width height"
  shows "create_icon_data width height = Inl StructError"
  using assms by (simp add: create_icon_data_def bmp_header_raises valid_dims_def)

lemma mask_size_nonneg: "0 \<le> width \<Longrightarrow> 0 \<le> height \<Longrightarrow> 0 \<le> mask_size width height"
  by (simp add: mask_size_def)

lemma py_len_image_bytes:
  assumes "0 \<le> width" "0 \<le> height"
  shows "py_len (image_bytes width height) = image_size width height"
  using assms mask_size_nonneg [OF assms]
  by (simp add: py_len_def image_bytes_def image_size_def nat_mult_distrib)

lemma read_bmp_header_image_bytes:
  assumes "valid_dims width height"
  shows "read_bmp_header (image_bytes width height)
      = Inr [40, width, height * 2, 1, 32, 0, 0, 0, 0, 0, 0]"
proof -
  from assms have "pack ''<IIIHHIIIIII'' [40, width, height * 2, 1, 32, 0, 0, 0, 0, 0, 0]
      = Inr (header_bytes width height)"
    using bmp_header_ok [of width height] by (simp add: bmp_header_def valid_dims_def header_bytes_def)
  then show ?thesis unfolding image_bytes_def by (rule read_bmp_header_pack)
qed

section \<open>Properties\<close>

text \<open>
  C1. For dimensions that fit the header fields (\<open>0 \<le> width < 2^32\<close> and
  \<open>0 \<le> 2 * height < 2^32\<close>) \<open>create_icon_data\<close> raises nothing and returns the
  40-byte header, then the pixels in BGRA order, four bytes each, row after row
  with no padding, then the zero bytes of the AND mask; its length is
  \<open>40 + 4 * width * height + ((width + 31) div 32) * 4 * height\<close>.
\<close>

theorem create_icon_data_returns:
  assumes "0 \<le> width" and "width < 2 ^ 32" and "0 \<le> height" and "height * 2 < 2 ^ 32"
  shows "create_icon_data width height
      = Inr (header_bytes width height @ pixel_bytes width height
             @ replicate (nat (((width + 31) div 32) * 4 * height)) 0)
    \<and> py_len (image_bytes width height)
      = 40 + 4 * width * height + ((width + 31) div 32) * 4 * height"
  using assms create_icon_data_ok [of width height] py_len_image_bytes [of width height]
  by (simp add: valid_dims_def image_bytes_def image_size_def mask_size_def)

theorem create_icon_data_returns_witness:
  "create_icon_data 16 16
      = Inr (header_bytes 16 16 @ pixel_bytes 16 16 @ replicate 64 0)
    \<and> py_len (image_bytes 16 16) = 1128"
  using create_icon_data_returns [of 16 16] by simp

text \<open>
  C25. \<open>create_icon_data\<close> raises exactly when a dimension does not fit its
  header field (negative, \<open>width \<ge> 2^32\<close> or \<open>2 * height \<ge> 2^32\<close>), and then
  the exception is \<^verbatim>\<open>struct.error\<close>; no other exception can leave it.
\<close>

theorem create_icon_data_raises_iff:
  "create_icon_data width height = Inl e \<longleftrightarrow>
     e = StructError \<and> \<not> (0 \<le> width \<and> width < 2 ^ 32 \<and> 0 \<le> height \<and> height * 2 < 2 ^ 32)"
  using create_icon_data_ok [of width height] create_icon_data_raises [of width height]
  by (cases "valid_dims width height") (auto simp: valid_dims_def)

theorem create_icon_data_raises_iff_witness:
  "create_icon_data (- 1) 16 = Inl StructError \<and> create_icon_data 16 (2 ^ 31) = Inl StructError
    \<and> create_icon_data 4294967296 1 = Inl StructError \<and> create_icon_data 0 0 \<noteq> Inl StructError"
  using create_icon_data_raises_iff [of "- 1" 16 StructError]
    create_icon_data_raises_iff [of 16 "2 ^ 31" StructError]
    create_icon_data_raises_iff [of 4294967296 1 StructError]
    create_icon_data_raises_iff [of 0 0 StructError]
  by simp

text \<open>
  C37. Inside the loops (\<open>0 \<le> x < width\<close>, \<open>0 \<le> y < height\<close>) \<open>icon_pixel\<close>
  divides by no zero and every channel it computes in floating point is a
  byte: the gradient keeps red in 102..118, green in 75..126 and blue in
  162..234, the clipboard drawing uses three fixed colours, alpha is 255.
\<close>

theorem icon_pixel_channels:
  assumes "0 \<le> x" and "x < width" and "0 \<le> y" and "y < height"
  shows "\<exists>b g r. icon_pixel width height y x = Inr [b, g, r, 255]
    \<and> is_byte_value b \<and> is_byte_value g \<and> is_byte_value r
    \<and> ((102 \<le> r \<and> r \<le> 118 \<and> 75 \<le> g \<and> g \<le> 126 \<and> 162 \<le> b \<and> b \<le> 234)
        \<or> (r, g, b) \<in> {(70, 70, 75), (102, 126, 234), (245, 245, 245)})"
  using icon_pixel_ok [OF assms]
  by (auto simp: gradient_range_def palette_def is_byte_value_def)

theorem icon_pixel_channels_witness:
  "\<exists>b g r. icon_pixel 48 48 47 47 = Inr [b, g, r, 255]
    \<and> is_byte_value b \<and> is_byte_value g \<and> is_byte_value r
    \<and> ((102 \<le> r \<and> r \<le> 118 \<and> 75 \<le> g \<and> g \<le> 126 \<and> 162 \<le> b \<and> b \<le> 234)
        \<or> (r, g, b) \<in> {(70, 70, 75), (102, 126, 234), (245, 245, 245)})"
  using icon_pixel_channels [of 47 48 47 48] by simp

text \<open>
  For all integers \<open>width\<close> and \<open>height\<close> the pixel loop followed by
  \<^verbatim>\<open>bytes(pixels)\<close> raises neither \<^verbatim>\<open>ZeroDivisionError\<close> nor \<^verbatim>\<open>ValueError\<close> and
  yields four bytes per pixel (none when a dimension is not positive).
\<close>

theorem pixel_bytes_never_raise:
  "\<exists>pixel_data. bind_res (icon_pixels width height) py_bytes = Inr pixel_data
    \<and> length pixel_data = 4 * nat width * nat height"
  by (simp add: icon_pixels_ok py_bytes_pixel_rows)

text \<open>
  At 32 bits per pixel the row-alignment loop changes nothing: rows of
  \<open>4 * width\<close> bytes are already multiples of 4, the padding is empty and the
  slices put back together are the pixel data.
\<close>

theorem aligned_rows_identity:
  assumes "0 \<le> width" and "0 \<le> height" and "py_len pixel_data = 4 * width * height"
  shows "aligned_rows pixel_data width height = pixel_data"
proof -
  from assms(3) have "length pixel_data = nat (4 * width * height)"
    by (simp add: py_len_def)
  also have "\<dots> = nat height * (nat width * 4)"
    using assms(1,2) by (simp add: nat_mult_distrib mult_ac)
  finally show ?thesis using assms(1) by (simp add: aligned_rows_take)
qed

theorem aligned_rows_identity_witness:
  "aligned_rows [1, 2, 3, 4, 5, 6, 7, 8] 1 2 = [1, 2, 3, 4, 5, 6, 7, 8]"
  using aligned_rows_identity [of 1 2 "[1, 2, 3, 4, 5, 6, 7, 8]"] by simp

text \<open>
  The bitmap header at the start of an image reads back, field by field,
  as size 40, the width, twice the height, 1 plane, 32 bits per pixel and zeros.
\<close>

theorem bmp_header_reads_back:
  assumes "0 \<le> width" and "width < 2 ^ 32" and "0 \<le> height" and "height * 2 < 2 ^ 32"
  shows "\<exists>img. create_icon_data width height = Inr img
    \<and> read_bmp_header img = Inr [40, width, height * 2, 1, 32, 0, 0, 0, 0, 0, 0]"
  using assms by (simp add: create_icon_data_ok read_bmp_header_image_bytes valid_dims_def)

theorem bmp_header_reads_back_witness:
  "\<exists>img. create_icon_data 48 48 = Inr img
    \<and> read_bmp_header img = Inr [40, 48, 96, 1, 32, 0, 0, 0, 0, 0, 0]"
  using bmp_header_reads_back [of 48 48] by simp

text \<open>
  C34. Every pixel of an image built by \<open>create_icon_data\<close> is opaque twice
  over: its bit in the AND mask is 0 and its alpha byte is 255. (The comment
  in the script calls the mask "all transparent".)
\<close>

theorem mask_bits_opaque:
  assumes "0 \<le> x" and "x < width" and "0 \<le> y" and "y < height"
    and "valid_dims width height"
  shows "\<exists>img b g r. create_icon_data width height = Inr img
    \<and> read_mask_bit img width height 32 y x = Some False
    \<and> icon_pixel width height y x = Inr [b, g, r, 255]"
proof -
  from assms have d: "0 \<le> width" "0 \<le> height" by simp_all
  have "read_mask_bit (image_bytes width height) width height 32 y x = Some False"
  proof (rule read_mask_bit_zero_plane [OF _ _ _ assms(1-4)])
    show "image_bytes width height = (header_bytes width height @ pixel_bytes width height)
        @ replicate (nat (mask_size width height)) 0"
      by (simp add: image_bytes_def)
    show "int (length (header_bytes width height @ pixel_bytes width height))
        = mask_offset width height 32"
      using d by (simp add: mask_offset_def row_stride_32)
    show "int (nat (mask_size width height)) = mask_stride width * height"
      using mask_size_nonneg [OF d] by (simp add: mask_size_def mask_stride_def)
  qed
  with icon_pixel_ok [OF assms(1-4)] show ?thesis
    by (auto simp: create_icon_data_ok [OF assms(5)])
qed

theorem mask_bits_opaque_witness:
  "\<exists>img b g r. create_icon_data 16 16 = Inr img
    \<and> read_mask_bit img 16 16 32 0 15 = Some False
    \<and> icon_pixel 16 16 0 15 = Inr [b, g, r, 255]"
  using mask_bits_opaque [of 15 16 0 16] by (simp add: valid_dims_def)

end
