(* ===== verification/Multi_Size_Icon.thy ===== *)
theory Multi_Size_Icon
  imports Multi_Size_Image
begin

text \<open>
  Model of the function \<open>create_ico_file\<close> of
  \<^verbatim>\<open>src/ClipD/resources/create_multi_size_icon.py\<close>, which writes the container
  around the images of \<open>Multi_Size_Image\<close>. \<open>create_ico_file\<close> is the function
  over the list of sizes (\<open>ico_file_of\<close>): the loop that builds the images
  (\<open>build_images\<close>), the 6-byte header (\<open>ico_header\<close>), the directory loop
  (\<open>build_directory\<close> over \<open>dir_entry\<close>, with the running offset in the loop
  state \<open>dir_state\<close>) and the concatenation of the images.

  The theorems say when the function raises (\<open>returns_file\<close>), what the bytes
  are when it does not (\<open>ico_bytes\<close>), and what a reader of \<open>Ico_Format\<close> finds
  in them: every directory entry leads to its image.
\<close>

section \<open>The container: create_ico_file\<close>

record dir_state =
  directory :: bytes
  data_offset :: int

definition build_images :: "int list \<Rightarrow> (int \<times> bytes) list result" where
  "build_images sizes =
     for_res sizes (\<lambda>sz images.
       bind_res (create_icon_data sz sz) (\<lambda>data. Inr (images @ [(sz, data)]))) []"

definition ico_header :: "int \<Rightarrow> bytes result" where
  "ico_header count = pack ''<HHH'' [0, 1, count]"

definition dir_entry :: "int \<Rightarrow> bytes \<Rightarrow> int \<Rightarrow> bytes result" where
  "dir_entry sz data offset =
     pack ''<BBBBHHII''
       [if sz < 256 then sz else 0,
        if sz < 256 then sz else 0,
        0, 0, 1, 32, py_len data, offset]"

definition dir_step :: "int \<times> bytes \<Rightarrow> dir_state \<Rightarrow> dir_state result" where
  "dir_step img st =
     (case img of (sz, data) \<Rightarrow>
        bind_res (dir_entry sz data (data_offset st)) (\<lambda>entry.
          Inr (st\<lparr>directory := directory st @ entry,
                  data_offset := data_offset st + py_len data\<rparr>)))"

definition build_directory :: "(int \<times> bytes) list \<Rightarrow> int \<Rightarrow> dir_state result" where
  "build_directory images offset =
     for_res images dir_step \<lparr>directory = [], data_offset = offset\<rparr>"

definition ico_file_of :: "int list \<Rightarrow> bytes result" where
  "ico_file_of sizes =
     (let offset = 6 + 16 * py_len sizes
      in bind_res (build_images sizes) (\<lambda>images.
         bind_res (ico_header (py_len sizes)) (\<lambda>header.
         bind_res (build_directory images offset) (\<lambda>st.
           Inr (fold (\<lambda>img ico_data. ico_data @ snd img) images
                  (header @ directory st))))))"

definition create_ico_file :: "bytes result" where
  "create_ico_file = ico_file_of [16, 32, 48]"

section \<open>Derived notions\<close>

text \<open>
  What \<open>create_ico_file\<close> returns when it returns (\<open>ico_bytes\<close>): the header,
  the directory \<open>directory_bytes\<close> with one \<open>entry_bytes\<close> per image at the
  running offsets \<open>offsets_from\<close>, and the images; \<open>fits_container\<close> is a
  sufficient condition for it to return.
\<close>

definition images_of :: "int list \<Rightarrow> (int \<times> bytes) list" where
  "images_of sizes = map (\<lambda>sz. (sz, image_bytes sz sz)) sizes"

primrec offsets_from :: "int \<Rightarrow> (int \<times> bytes) list \<Rightarrow> int list" where
  "offsets_from off [] = []"
| "offsets_from off (img # imgs) = off # offsets_from (off + py_len (snd img)) imgs"

definition total_len :: "(int \<times> bytes) list \<Rightarrow> int" where
  "total_len imgs = sum_list (map (py_len \<circ> snd) imgs)"

definition entry_bytes :: "int \<times> bytes \<Rightarrow> int \<Rightarrow> bytes" where
  "entry_bytes img off =
     (case img of (sz, data) \<Rightarrow>
        le_bytes 1 (if sz < 256 then sz else 0) @ le_bytes 1 (if sz < 256 then sz else 0)
        @ le_bytes 1 0 @ le_bytes 1 0 @ le_bytes 2 1 @ le_bytes 2 32
        @ le_bytes 4 (py_len data) @ le_bytes 4 off)"

definition directory_bytes :: "int \<Rightarrow> (int \<times> bytes) list \<Rightarrow> bytes" where
  "directory_bytes off imgs = concat (map2 entry_bytes imgs (offsets_from off imgs))"

definition ico_bytes :: "int list \<Rightarrow> bytes" where
  "ico_bytes sizes =
     le_bytes 2 0 @ le_bytes 2 1 @ le_bytes 2 (py_len sizes)
       @ directory_bytes (6 + 16 * py_len sizes) (images_of sizes)
       @ concat (map snd (images_of sizes))"

definition fits_container :: "int list \<Rightarrow> bool" where
  "fits_container sizes \<longleftrightarrow>
     list_all (\<lambda>sz. valid_dims sz sz) sizes \<and> py_len sizes < 65536
       \<and> 6 + 16 * py_len sizes + total_len (images_of sizes) < 2 ^ 32"

text \<open>
  The exact condition: every entry's size and offset fit their 32-bit fields
  when the loop reaches the entry (\<open>entries_fit\<close>); the offset behind the last
  image is never packed.
\<close>

primrec entries_fit :: "int \<Rightarrow> (int \<times> bytes) list \<Rightarrow> bool" where
  "entries_fit off [] \<longleftrightarrow> True"
| "entries_fit off (img # imgs) \<longleftrightarrow>
     0 \<le> fst img \<and> py_len (snd img) < 2 ^ 32 \<and> 0 \<le> off \<and> off < 2 ^ 32
       \<and> entries_fit (off + py_len (snd img)) imgs"

definition returns_file :: "int list \<Rightarrow> bool" where
  "returns_file sizes \<longleftrightarrow>
     list_all (\<lambda>sz. valid_dims sz sz) sizes \<and> py_len sizes < 65536
       \<and> entries_fit (6 + 16 * py_len sizes) (images_of sizes)"

definition stored_dim :: "int \<Rightarrow> int" where
  "stored_dim sz = (if sz < 256 then sz else 0)"

definition image_offset :: "int list \<Rightarrow> nat \<Rightarrow> int" where
  "image_offset sizes i =
     6 + 16 * py_len sizes + sum_list (map (\<lambda>sz. image_size sz sz) (take i sizes))"

section \<open>Images, header and directory\<close>

lemma build_images_ok:
  assumes "list_all (\<lambda>sz. valid_dims sz sz) sizes"
  shows "build_images sizes = Inr (images_of sizes)"
proof -
  have "build_images sizes
      = Inr (fold (\<lambda>sz images. images @ [(sz, image_bytes sz sz)]) sizes [])"
    unfolding build_images_def using assms
    by (intro for_res_pure) (simp add: list_all_iff create_icon_data_ok)
  then show ?thesis by (simp add: fold_snoc images_of_def)
qed

lemma ico_header_ok:
  "0 \<le> count \<Longrightarrow> count < 65536 \<Longrightarrow>
     ico_header count = Inr (le_bytes 2 0 @ le_bytes 2 1 @ le_bytes 2 count)"
  by (simp add: ico_header_def pack_unfold format_eval)

lemma ico_header_raises:
  "\<not> (0 \<le> count \<and> count < 65536) \<Longrightarrow> ico_header count = Inl StructError"
  by (auto simp: ico_header_def pack_unfold format_eval)

lemma dir_entry_ok:
  assumes "0 \<le> sz" "py_len data < 2 ^ 32" "0 \<le> off" "off < 2 ^ 32"
  shows "dir_entry sz data off = Inr (entry_bytes (sz, data) off)"
  using assms by (simp add: dir_entry_def pack_unfold format_eval entry_bytes_def)

lemma dir_entry_raises:
  assumes "\<not> (0 \<le> sz \<and> py_len data < 2 ^ 32 \<and> 0 \<le> off \<and> off < 2 ^ 32)"
  shows "dir_entry sz data off = Inl StructError"
  using assms by (auto simp: dir_entry_def pack_unfold format_eval)

lemma length_entry_bytes [simp]: "length (entry_bytes img off) = 16"
  by (cases img) (simp add: entry_bytes_def)

lemma total_len_simps [simp]:
  "total_len [] = 0"
  "total_len (img # imgs) = py_len (snd img) + total_len imgs"
  by (simp_all add: total_len_def)

lemma total_len_nonneg [simp]: "0 \<le> total_len imgs"
  by (induction imgs) simp_all

lemma length_offsets_from [simp]: "length (offsets_from off imgs) = length imgs"
  by (induction imgs arbitrary: off) simp_all

lemma directory_bytes_simps [simp]:
  "directory_bytes off [] = []"
  "directory_bytes off (img # imgs)
     = entry_bytes img off @ directory_bytes (off + py_len (snd img)) imgs"
  by (simp_all add: directory_bytes_def)

lemma length_directory_bytes [simp]: "length (directory_bytes off imgs) = 16 * length imgs"
  by (induction imgs arbitrary: off) simp_all

text \<open>The directory loop from any state: the invariant of the running offset.\<close>

lemma dir_loop:
  assumes "list_all (\<lambda>img. 0 \<le> fst img) imgs" and "0 \<le> off" and "off + total_len imgs < 2 ^ 32"
  shows "for_res imgs dir_step \<lparr>directory = acc, data_offset = off\<rparr>
      = Inr \<lparr>directory = acc @ directory_bytes off imgs, data_offset = off + total_len imgs\<rparr>"
  using assms
proof (induction imgs arbitrary: acc off)
  case Nil
  then show ?case by simp
next
  case (Cons img imgs)
  obtain sz data where img: "img = (sz, data)" by (cases img)
  from Cons.prems have "0 \<le> sz" and t: "off + (py_len data + total_len imgs) < 2 ^ 32"
    by (simp_all add: img)
  moreover from t Cons.prems(2) have "py_len data < 2 ^ 32" "off < 2 ^ 32"
    using py_len_nonneg [of data] total_len_nonneg [of imgs] by linarith+
  ultimately have step: "dir_step img \<lparr>directory = acc, data_offset = off\<rparr>
      = Inr \<lparr>directory = acc @ entry_bytes img off, data_offset = off + py_len data\<rparr>"
    using Cons.prems(2) by (simp add: dir_step_def img dir_entry_ok)
  from Cons.prems have "for_res imgs dir_step
        \<lparr>directory = acc @ entry_bytes img off, data_offset = off + py_len data\<rparr>
      = Inr \<lparr>directory = (acc @ entry_bytes img off) @ directory_bytes (off + py_len data) imgs,
             data_offset = off + py_len data + total_len imgs\<rparr>"
    by (intro Cons.IH) (simp_all add: img add.assoc)
  with step show ?case by (simp add: img add.assoc)
qed

text \<open>The same loop with its exact condition.\<close>

lemma dir_loop_iff:
  "for_res imgs dir_step \<lparr>directory = acc, data_offset = off\<rparr>
    = (if entries_fit off imgs
       then Inr \<lparr>directory = acc @ directory_bytes off imgs,
                 data_offset = off + total_len imgs\<rparr>
       else Inl StructError)"
proof (induction imgs arbitrary: acc off)
  case Nil
  then show ?case by simp
next
  case (Cons img imgs)
  obtain sz data where img: "img = (sz, data)" by (cases img)
  show ?case
  proof (cases "0 \<le> sz \<and> py_len data < 2 ^ 32 \<and> 0 \<le> off \<and> off < 2 ^ 32")
    case True
    then have "dir_step img \<lparr>directory = acc, data_offset = off\<rparr>
        = Inr \<lparr>directory = acc @ entry_bytes img off, data_offset = off + py_len data\<rparr>"
      by (simp add: img dir_step_def dir_entry_ok)
    with True show ?thesis by (simp add: Cons.IH img add.assoc)
  next
    case False
    then have "dir_entry sz data off = Inl StructError" by (rule dir_entry_raises)
    then have "dir_step img \<lparr>directory = acc, data_offset = off\<rparr> = Inl StructError"
      by (simp add: img dir_step_def)
    with False show ?thesis by (auto simp: img)
  qed
qed

lemma entries_fit_total:
  assumes "list_all (\<lambda>img. 0 \<le> fst img) imgs" and "0 \<le> off" and "off + total_len imgs < 2 ^ 32"
  shows "entries_fit off imgs"
  using dir_loop [OF assms, of "[]"] by (simp add: dir_loop_iff split: if_splits)

lemma build_directory_ok:
  assumes "list_all (\<lambda>img. 0 \<le> fst img) imgs" and "0 \<le> off" and "off + total_len imgs < 2 ^ 32"
  shows "build_directory imgs off
      = Inr \<lparr>directory = directory_bytes off imgs, data_offset = off + total_len imgs\<rparr>"
  using dir_loop [OF assms, of "[]"] by (simp add: build_directory_def)


lemma images_of_simps [simp]:
  "images_of [] = []"
  "images_of (sz # sizes) = (sz, image_bytes sz sz) # images_of sizes"
  "length (images_of sizes) = length sizes"
  by (simp_all add: images_of_def)

lemma images_of_nonneg:
  "list_all (\<lambda>sz. valid_dims sz sz) sizes \<Longrightarrow> list_all (\<lambda>img. 0 \<le> fst img) (images_of sizes)"
  by (induction sizes) (simp_all add: valid_dims_def)

lemma total_len_images_of:
  "list_all (\<lambda>sz. valid_dims sz sz) sizes \<Longrightarrow>
     total_len (images_of sizes) = sum_list (map (\<lambda>sz. image_size sz sz) sizes)"
  by (induction sizes) (simp_all add: valid_dims_def py_len_image_bytes)

lemma ico_file_of_ok:
  assumes "fits_container sizes"
  shows "ico_file_of sizes = Inr (ico_bytes sizes)"
proof -
  let ?n = "py_len sizes" and ?imgs = "images_of sizes"
  from assms have v: "list_all (\<lambda>sz. valid_dims sz sz) sizes" and n: "?n < 65536"
    and t: "6 + 16 * ?n + total_len ?imgs < 2 ^ 32"
    by (simp_all add: fits_container_def)
  have "build_directory ?imgs (6 + 16 * ?n)
      = Inr \<lparr>directory = directory_bytes (6 + 16 * ?n) ?imgs,
             data_offset = 6 + 16 * ?n + total_len ?imgs\<rparr>"
    using images_of_nonneg [OF v] _ t by (rule build_directory_ok) simp
  with n show ?thesis
    by (simp add: ico_file_of_def Let_def build_images_ok [OF v] ico_header_ok fold_extend
        ico_bytes_def)
qed

lemma build_images_raises:
  assumes "\<not> list_all (\<lambda>sz. valid_dims sz sz) sizes"
  shows "build_images sizes = Inl StructError"
proof -
  have "for_res sizes (\<lambda>sz images.
          bind_res (create_icon_data sz sz) (\<lambda>data. Inr (images @ [(sz, data)]))) []
      = (if list_all (\<lambda>sz. valid_dims sz sz) sizes
         then Inr (fold (\<lambda>sz images. images @ [(sz, image_bytes sz sz)]) sizes [])
         else Inl StructError)"
    by (intro for_res_guarded) (simp add: create_icon_data_ok create_icon_data_raises)
  with assms show ?thesis by (simp add: build_images_def)
qed

lemma ico_file_of_iff:
  "ico_file_of sizes = (if returns_file sizes then Inr (ico_bytes sizes) else Inl StructError)"
proof (cases "list_all (\<lambda>sz. valid_dims sz sz) sizes")
  case False
  then show ?thesis by (simp add: ico_file_of_def build_images_raises returns_file_def)
next
  case v: True
  show ?thesis
  proof (cases "py_len sizes < 65536")
    case False
    then show ?thesis
      by (simp add: ico_file_of_def build_images_ok [OF v] ico_header_raises returns_file_def)
  next
    case True
    then show ?thesis
      by (simp add: ico_file_of_def Let_def build_images_ok [OF v] ico_header_ok
          build_directory_def dir_loop_iff returns_file_def v fold_extend ico_bytes_def)
  qed
qed

lemma fits_container_returns: "fits_container sizes \<Longrightarrow> returns_file sizes"
  using images_of_nonneg [of sizes] entries_fit_total [of "images_of sizes" "6 + 16 * py_len sizes"]
  by (simp add: fits_container_def returns_file_def)

lemma length_concat_images: "int (length (concat (map snd imgs))) = total_len imgs"
  by (induction imgs) (simp_all add: py_len_def)

lemma py_len_ico_bytes:
  "py_len (ico_bytes sizes) = 6 + 16 * py_len sizes + total_len (images_of sizes)"
  by (simp add: ico_bytes_def py_len_def length_concat_images [unfolded py_len_def])

lemma nth_offsets_from:
  "i < length imgs \<Longrightarrow> offsets_from off imgs ! i = off + total_len (take i imgs)"
proof (induction imgs arbitrary: off i)
  case Nil
  then show ?case by simp
next
  case (Cons img imgs)
  then show ?case by (cases i) simp_all
qed

text \<open>Consecutive directory entries: each image starts where the one before ends.\<close>

lemma offsets_contiguous:
  assumes "Suc i < length imgs"
  shows "offsets_from off imgs ! Suc i = offsets_from off imgs ! i + py_len (snd (imgs ! i))"
proof -
  from assms have "take (Suc i) imgs = take i imgs @ [imgs ! i]"
    by (simp add: take_Suc_conv_app_nth)
  then have "total_len (take (Suc i) imgs) = total_len (take i imgs) + py_len (snd (imgs ! i))"
    by (simp add: total_len_def)
  with assms show ?thesis by (simp add: nth_offsets_from)
qed

text \<open>The bytes between an entry's offset and offset plus size are that entry's image.\<close>

lemma slice_at_offset:
  assumes "i < length imgs" and "int (length pre) = off"
  shows "py_slice (pre @ concat (map snd imgs)) (offsets_from off imgs ! i)
           (offsets_from off imgs ! i + py_len (snd (imgs ! i))) = snd (imgs ! i)"
proof -
  let ?k = "length (concat (map snd (take i imgs)))"
  have o: "offsets_from off imgs ! i = int (length pre + ?k)"
    using assms by (simp add: nth_offsets_from length_concat_images)
  have split: "concat (map snd imgs)
      = concat (map snd (take i imgs)) @ snd (imgs ! i) @ concat (map snd (drop (Suc i) imgs))"
    using assms(1) by (subst id_take_nth_drop [of i imgs]) simp_all
  have "py_slice (pre @ concat (map snd imgs)) (int (length pre + ?k))
      (int (length pre + ?k + length (snd (imgs ! i)))) = snd (imgs ! i)"
    unfolding py_slice_nat by (subst split) simp
  then show ?thesis by (simp add: o py_len_def)
qed


lemma directory_entry_at:
  assumes "i < length imgs"
  shows "drop (i * 16) (take (Suc i * 16) (directory_bytes off imgs))
      = entry_bytes (imgs ! i) (offsets_from off imgs ! i)"
proof -
  let ?zs = "zip imgs (offsets_from off imgs)"
  have "directory_bytes off imgs = concat (map (\<lambda>(img, off). entry_bytes img off) ?zs)"
    by (simp add: directory_bytes_def)
  moreover have "drop (i * 16) (take (Suc i * 16) (concat (map (\<lambda>(img, off). entry_bytes img off) ?zs)))
      = (\<lambda>(img, off). entry_bytes img off) (?zs ! i)"
    using assms by (intro row_of_concat) auto
  ultimately show ?thesis using assms by simp
qed

lemma unpack_entry_bytes:
  assumes "0 \<le> sz" "py_len data < 2 ^ 32" "0 \<le> off" "off < 2 ^ 32"
  shows "unpack ''<BBBBHHII'' (entry_bytes (sz, data) off)
      = Inr [stored_dim sz, stored_dim sz, 0, 0, 1, 32, py_len data, off]"
  using dir_entry_ok [OF assms]
  unfolding dir_entry_def stored_dim_def [symmetric] by (rule unpack_pack)

section \<open>Reading the file back\<close>

lemma total_len_take_le: "total_len (take i imgs) \<le> total_len imgs"
proof (induction imgs arbitrary: i)
  case Nil
  then show ?case by simp
next
  case (Cons img imgs)
  then show ?case by (cases i) (simp_all add: add_increasing)
qed

lemma total_len_nth_le: "i < length imgs \<Longrightarrow> py_len (snd (imgs ! i)) \<le> total_len imgs"
proof (induction imgs arbitrary: i)
  case Nil
  then show ?case by simp
next
  case (Cons img imgs)
  then show ?case by (cases i) (simp_all add: add_increasing add_increasing2)
qed

lemma length_ico_prefix:
  "length (le_bytes 2 0 @ le_bytes 2 1 @ le_bytes 2 n @ directory_bytes off imgs)
     = 6 + 16 * length imgs"
  by simp

lemma read_header_ico_bytes:
  assumes "py_len sizes < 65536"
  shows "read_header (ico_bytes sizes) = Inr [0, 1, py_len sizes]"
proof -
  from assms have "pack ''<HHH'' [0, 1, py_len sizes]
      = Inr (le_bytes 2 0 @ le_bytes 2 1 @ le_bytes 2 (py_len sizes))"
    using ico_header_ok [of "py_len sizes"] by (simp add: ico_header_def)
  then have "read_header ((le_bytes 2 0 @ le_bytes 2 1 @ le_bytes 2 (py_len sizes))
      @ directory_bytes (6 + 16 * py_len sizes) (images_of sizes)
      @ concat (map snd (images_of sizes))) = Inr [0, 1, py_len sizes]"
    by (rule read_header_pack)
  then show ?thesis by (simp add: ico_bytes_def)
qed

lemma entry_slice_ico_bytes:
  assumes "i < length sizes"
  shows "py_slice (ico_bytes sizes) (6 + 16 * int i) (22 + 16 * int i)
      = entry_bytes (images_of sizes ! i)
          (offsets_from (6 + 16 * py_len sizes) (images_of sizes) ! i)"
proof -
  let ?dir = "directory_bytes (6 + 16 * py_len sizes) (images_of sizes)"
  let ?hdr = "le_bytes 2 0 @ le_bytes 2 1 @ le_bytes 2 (py_len sizes)"
  have "py_slice (ico_bytes sizes) (6 + 16 * int i) (22 + 16 * int i)
      = drop (6 + 16 * i) (take (22 + 16 * i) (?hdr @ ?dir @ concat (map snd (images_of sizes))))"
    by (simp add: py_slice_nonneg ico_bytes_def nat_add_distrib nat_mult_distrib)
  also have "\<dots> = drop (i * 16) (take (Suc i * 16) ?dir)"
    using assms by (simp add: mult.commute)
  also have "\<dots> = entry_bytes (images_of sizes ! i)
          (offsets_from (6 + 16 * py_len sizes) (images_of sizes) ! i)"
    using assms by (intro directory_entry_at) simp
  finally show ?thesis .
qed


lemma images_of_take: "take i (images_of sizes) = images_of (take i sizes)"
  by (simp add: images_of_def take_map)

lemma offsets_images_of:
  assumes "list_all (\<lambda>sz. valid_dims sz sz) sizes" and "i < length sizes"
  shows "offsets_from (6 + 16 * py_len sizes) (images_of sizes) ! i = image_offset sizes i"
proof -
  from assms(1) have "list_all (\<lambda>sz. valid_dims sz sz) (take i sizes)"
    by (auto simp: list_all_iff dest: in_set_takeD)
  then show ?thesis
    using assms(2) by (simp add: nth_offsets_from images_of_take total_len_images_of image_offset_def)
qed

lemma read_entry_ico_bytes:
  assumes "fits_container sizes" and "i < length sizes"
  shows "read_entry (ico_bytes sizes) (int i)
      = Inr [stored_dim (sizes ! i), stored_dim (sizes ! i), 0, 0, 1, 32,
             image_size (sizes ! i) (sizes ! i), image_offset sizes i]"
proof -
  let ?imgs = "images_of sizes" and ?off = "6 + 16 * py_len sizes"
  let ?sz = "sizes ! i"
  from assms(1) have v: "list_all (\<lambda>sz. valid_dims sz sz) sizes"
    and t: "?off + total_len ?imgs < 2 ^ 32"
    by (simp_all add: fits_container_def)
  from v assms(2) have vi: "valid_dims ?sz ?sz" by (simp add: list_all_length)
  have img: "?imgs ! i = (?sz, image_bytes ?sz ?sz)"
    using assms(2) by (simp add: images_of_def)
  have len: "py_len (image_bytes ?sz ?sz) = image_size ?sz ?sz"
    using vi by (simp add: valid_dims_def py_len_image_bytes)
  have o: "offsets_from ?off ?imgs ! i = ?off + total_len (take i ?imgs)"
    using assms(2) by (simp add: nth_offsets_from)
  have "py_len (snd (?imgs ! i)) \<le> total_len ?imgs"
    using assms(2) by (intro total_len_nth_le) simp
  then have "py_len (image_bytes ?sz ?sz) \<le> total_len ?imgs" by (simp add: img)
  with t have "py_len (image_bytes ?sz ?sz) < 2 ^ 32"
    using py_len_nonneg [of sizes] by linarith
  moreover have "0 \<le> offsets_from ?off ?imgs ! i" "offsets_from ?off ?imgs ! i < 2 ^ 32"
    using t total_len_take_le [of i ?imgs] total_len_nonneg [of "take i ?imgs"]
      py_len_nonneg [of sizes] unfolding o by linarith+
  moreover from vi have "0 \<le> ?sz" by (simp add: valid_dims_def)
  ultimately have "unpack ''<BBBBHHII'' (entry_bytes (?sz, image_bytes ?sz ?sz)
        (offsets_from ?off ?imgs ! i))
      = Inr [stored_dim ?sz, stored_dim ?sz, 0, 0, 1, 32, py_len (image_bytes ?sz ?sz),
             offsets_from ?off ?imgs ! i]"
    by (intro unpack_entry_bytes)
  then show ?thesis
    using assms(2) by (simp add: read_entry_def entry_slice_ico_bytes img len
        offsets_images_of [OF v assms(2)])
qed

lemma image_slice_ico_bytes:
  assumes "list_all (\<lambda>sz. valid_dims sz sz) sizes" and "i < length sizes"
  shows "py_slice (ico_bytes sizes) (image_offset sizes i)
           (image_offset sizes i + image_size (sizes ! i) (sizes ! i))
      = image_bytes (sizes ! i) (sizes ! i)"
proof -
  let ?imgs = "images_of sizes" and ?off = "6 + 16 * py_len sizes"
  let ?pre = "le_bytes 2 0 @ le_bytes 2 1 @ le_bytes 2 (py_len sizes) @ directory_bytes ?off ?imgs"
  from assms have vi: "valid_dims (sizes ! i) (sizes ! i)" by (simp add: list_all_length)
  have img: "snd (?imgs ! i) = image_bytes (sizes ! i) (sizes ! i)"
    using assms(2) by (simp add: images_of_def)
  have "py_slice (?pre @ concat (map snd ?imgs)) (offsets_from ?off ?imgs ! i)
           (offsets_from ?off ?imgs ! i + py_len (snd (?imgs ! i))) = snd (?imgs ! i)"
    using assms(2) by (intro slice_at_offset) (simp_all add: py_len_def)
  then show ?thesis
    using vi by (simp add: ico_bytes_def img offsets_images_of [OF assms]
        py_len_image_bytes valid_dims_def)
qed

lemma read_image_ico_bytes:
  assumes "fits_container sizes" and "i < length sizes"
  shows "read_image (ico_bytes sizes) (int i) = Inr (image_bytes (sizes ! i) (sizes ! i))"
  using assms image_slice_ico_bytes [of sizes i]
  by (simp add: read_image_def read_entry_ico_bytes entry_offset_def entry_size_def
      fits_container_def)

section \<open>The shipped sizes and the loop invariant\<close>

lemma shipped_sizes:
  "list_all (\<lambda>sz. valid_dims sz sz) [16, 32, 48]"
  "total_len (images_of [16, 32, 48]) = 15032"
proof -
  show v: "list_all (\<lambda>sz. valid_dims sz sz) [16, 32, 48]"
    by (simp add: valid_dims_def)
  show "total_len (images_of [16, 32, 48]) = 15032"
    by (simp add: py_len_image_bytes image_size_def mask_size_def)
qed

lemma fits_container_shipped: "fits_container [16, 32, 48]"
  using shipped_sizes by (simp add: fits_container_def)

lemma dir_step_Inr:
  assumes "dir_step img st = Inr st'"
  shows "data_offset st' = data_offset st + py_len (snd img)"
    and "length (directory st') = length (directory st) + 16"
proof -
  obtain sz data where img: "img = (sz, data)" by (cases img)
  from assms obtain entry where e: "dir_entry sz data (data_offset st) = Inr entry"
    and st': "st' = st\<lparr>directory := directory st @ entry,
        data_offset := data_offset st + py_len data\<rparr>"
    by (auto simp: dir_step_def img bind_res_eq_Inr_iff)
  from e have "length entry = 16"
    by (auto simp: dir_entry_def format_eval dest: pack_length)
  then show "data_offset st' = data_offset st + py_len (snd img)"
    and "length (directory st') = length (directory st) + 16"
    by (simp_all add: st' img)
qed

lemma dir_loop_inv:
  assumes "for_res imgs dir_step st = Inr st'"
  shows "data_offset st' = data_offset st + total_len imgs
    \<and> length (directory st') = length (directory st) + 16 * length imgs"
  using assms
proof (induction imgs arbitrary: st)
  case Nil
  then show ?case by simp
next
  case (Cons img imgs)
  then obtain st1 where 1: "dir_step img st = Inr st1" and 2: "for_res imgs dir_step st1 = Inr st'"
    by (auto simp: bind_res_eq_Inr_iff)
  from Cons.IH [OF 2] dir_step_Inr [OF 1] show ?case by simp
qed

section \<open>Properties\<close>

text \<open>
  C2. Every directory entry of the file \<open>create_ico_file\<close> builds points at its
  image: reading entry \<open>i\<close> and slicing the file from the entry's offset over
  the entry's size gives exactly what \<open>create_icon_data\<close> returned for size
  \<open>i\<close>. This holds for every list of sizes whose file fits the 32-bit offsets.
\<close>

theorem directory_entry_reads_image:
  assumes "fits_container sizes" and "i < length sizes"
  shows "\<exists>file. ico_file_of sizes = Inr file
    \<and> read_image file (int i) = create_icon_data (sizes ! i) (sizes ! i)"
proof -
  from assms have "valid_dims (sizes ! i) (sizes ! i)"
    by (simp add: fits_container_def list_all_length)
  with assms show ?thesis
    by (simp add: ico_file_of_ok read_image_ico_bytes create_icon_data_ok)
qed

theorem directory_entry_reads_image_witness:
  "fits_container [16, 32, 48] \<and> (2::nat) < length [16, 32, 48 :: int]
    \<and> (\<exists>file. create_ico_file = Inr file \<and> read_image file 2 = create_icon_data 48 48)"
  using directory_entry_reads_image [OF fits_container_shipped, of 2] fits_container_shipped
  by (simp add: create_ico_file_def)

text \<open>
  C3. The script as shipped (sizes 16, 32 and 48) raises nothing; the file is
  the header, three directory entries and the three images, 15086 bytes in
  all, and its header reads as reserved 0, type 1, count 3.
\<close>

theorem create_ico_file_bytes:
  "create_ico_file = Inr (ico_bytes [16, 32, 48])
    \<and> py_len (ico_bytes [16, 32, 48]) = 15086
    \<and> read_header (ico_bytes [16, 32, 48]) = Inr [0, 1, 3]"
  using read_header_ico_bytes [of "[16, 32, 48]"] shipped_sizes(2)
  by (simp add: create_ico_file_def ico_file_of_ok fits_container_shipped py_len_ico_bytes)

text \<open>
  C4. The images are laid out without gaps or overlaps: the first directory
  entry's offset is \<open>6 + 16 * count\<close>, and every later entry's offset is the
  offset of the entry before it plus that entry's size.
\<close>

theorem directory_offsets_contiguous:
  assumes "fits_container sizes" and "Suc i < length sizes"
  shows "\<exists>file e0 e e'. ico_file_of sizes = Inr file
    \<and> read_entry file 0 = Inr e0 \<and> entry_offset e0 = 6 + 16 * py_len sizes
    \<and> read_entry file (int i) = Inr e \<and> read_entry file (int (Suc i)) = Inr e'
    \<and> entry_offset e' = entry_offset e + entry_size e"
proof -
  from assms(2) have i: "i < length sizes" and z: "0 < length sizes" by auto
  have "take (Suc i) sizes = take i sizes @ [sizes ! i]"
    using i by (simp add: take_Suc_conv_app_nth)
  then have "image_offset sizes (Suc i) = image_offset sizes i + image_size (sizes ! i) (sizes ! i)"
    by (simp add: image_offset_def)
  moreover have "read_entry (ico_bytes sizes) 0
      = Inr [stored_dim (sizes ! 0), stored_dim (sizes ! 0), 0, 0, 1, 32,
             image_size (sizes ! 0) (sizes ! 0), image_offset sizes 0]"
    using read_entry_ico_bytes [OF assms(1) z] by simp
  ultimately show ?thesis
    using read_entry_ico_bytes [OF assms(1) i] read_entry_ico_bytes [OF assms]
    by (simp add: ico_file_of_ok [OF assms(1)] entry_offset_def entry_size_def image_offset_def
        del: of_nat_Suc)
qed

theorem directory_offsets_contiguous_witness:
  "\<exists>file e0 e e'. create_ico_file = Inr file
    \<and> read_entry file 0 = Inr e0 \<and> entry_offset e0 = 54
    \<and> read_entry file 1 = Inr e \<and> read_entry file 2 = Inr e'
    \<and> entry_offset e' = entry_offset e + entry_size e"
  using directory_offsets_contiguous [OF fits_container_shipped, of 1]
  by (simp add: create_ico_file_def py_len_def)

text \<open>
  C38. A size of 256 is stored as the byte 0 in the width and height fields of
  the directory entry, which a reader shows as 256; packing 256 itself into the
  one-byte field would raise \<^verbatim>\<open>struct.error\<close>.
\<close>

theorem dir_entry_256:
  assumes "py_len data < 2 ^ 32" and "0 \<le> off" and "off < 2 ^ 32"
  shows "\<exists>rest. dir_entry 256 data off = Inr (0 # 0 # rest)
    \<and> pack ''<BBBBHHII'' [256, 256, 0, 0, 1, 32, py_len data, off] = Inl StructError
    \<and> shown_dim 0 = 256"
  using assms
  by (simp add: dir_entry_ok entry_bytes_def pack_unfold format_eval shown_dim_def py_eval)

theorem dir_entry_256_witness:
  "\<exists>rest. dir_entry 256 [] 22 = Inr (0 # 0 # rest)
    \<and> pack ''<BBBBHHII'' [256, 256, 0, 0, 1, 32, py_len ([] :: bytes), 22] = Inl StructError
    \<and> shown_dim 0 = 256"
  using dir_entry_256 [of "[]" 22] by simp

text \<open>
  Invariant of the directory loop: when it ends, the running offset is
  the start offset plus the lengths of all images, and the directory holds 16
  bytes per image.
\<close>

theorem build_directory_invariant:
  assumes "build_directory imgs off = Inr st"
  shows "data_offset st = off + total_len imgs \<and> length (directory st) = 16 * length imgs"
  using dir_loop_inv [OF assms [unfolded build_directory_def]] by simp

theorem build_directory_invariant_witness:
  "build_directory [(16, [1, 2, 3]), (32, [4, 5])] 38
     = Inr \<lparr>directory = directory_bytes 38 [(16, [1, 2, 3]), (32, [4, 5])], data_offset = 43\<rparr>
   \<and> data_offset \<lparr>directory = directory_bytes 38 [(16, [1, 2, 3]), (32, [4, 5])], data_offset = 43\<rparr>
     = 38 + total_len [(16, [1, 2, 3]), (32, [4, 5])]"
proof -
  have b: "build_directory [(16, [1, 2, 3]), (32, [4, 5])] 38
     = Inr \<lparr>directory = directory_bytes 38 [(16, [1, 2, 3]), (32, [4, 5])], data_offset = 43\<rparr>"
    by (simp add: build_directory_ok)
  from build_directory_invariant [OF b] b show ?thesis by simp
qed

text \<open>
  C26. The body of \<open>create_ico_file\<close> returns exactly when every size fits the
  bitmap header, there are fewer than 65536 sizes, and every image's size
  and offset fit the 32-bit fields of its directory entry; otherwise it
  raises \<^verbatim>\<open>struct.error\<close>. The offset behind the last image is never
  packed, so a file may be longer than \<open>2^32\<close> bytes.
\<close>

theorem ico_file_of_returns_iff:
  "ico_file_of sizes = (if returns_file sizes then Inr (ico_bytes sizes) else Inl StructError)
    \<and> (fits_container sizes \<longrightarrow> returns_file sizes)"
  by (simp add: ico_file_of_iff fits_container_returns)

theorem ico_file_of_returns_iff_witness:
  "returns_file [32000, 32000] \<and> \<not> fits_container [32000, 32000]
    \<and> ico_file_of [32000, 32000] = Inr (ico_bytes [32000, 32000])
    \<and> py_len (ico_bytes [32000, 32000]) = 8448000118
    \<and> ico_file_of [33000] = Inl StructError"
  using ico_file_of_returns_iff [of "[32000, 32000]"] ico_file_of_returns_iff [of "[33000]"]
  by (simp add: returns_file_def fits_container_def valid_dims_def py_len_image_bytes
      image_size_def mask_size_def py_len_ico_bytes)

end
