(* ===== verification/Multi_Size_Pixels.thy ===== *)
theory Multi_Size_Pixels
  imports Multi_Size_Icon
begin

text \<open>
  The colours of \<^verbatim>\<open>create_multi_size_icon.py\<close> without floating point. The script
  computes \<^verbatim>\<open>fx = x / width\<close> and \<^verbatim>\<open>fy = y / height\<close>, three channels from them
  with one to four further roundings each, and compares \<^verbatim>\<open>fx\<close> and \<^verbatim>\<open>fy\<close> with
  decimal constants. \<open>int_rgb\<close>, \<open>int_box\<close>, \<open>int_clipboard\<close> and \<open>int_pixel\<close>
  are the same picture in integer arithmetic, and the lemmas show that the
  script computes exactly that: red, green and the comparisons for all
  dimensions up to \<open>2^38\<close> pixels, blue wherever \<open>blue_safe\<close> holds, and every
  pixel of the three shipped sizes.

  Blue is \<^verbatim>\<open>int(234 + (-72) * (fx + fy) / 2)\<close>: four roundings before the
  truncation. Where the exact value is an integer of 170 or less the bound on
  their accumulated error exceeds half the spacing of the doubles at
  \<open>72 * (fx + fy)\<close>; \<open>blue_safe\<close> excludes these points from the general
  result, and \<open>blue_exact_point\<close> settles them one sum at a time (ten pixels at
  size 48, none at 16 and 32).
\<close>

section \<open>The picture in integers\<close>

definition int_rgb :: "int \<Rightarrow> int \<Rightarrow> int \<Rightarrow> int \<Rightarrow> int \<times> int \<times> int" where
  "int_rgb width height y x =
     (102 + 16 * x div width, 126 + - 51 * y div height,
      234 + - 36 * (x * height + y * width) div (width * height))"

definition int_box :: "int \<Rightarrow> int \<Rightarrow> int \<Rightarrow> int \<Rightarrow> int \<Rightarrow> int \<Rightarrow> int \<Rightarrow> int \<Rightarrow> bool" where
  "int_box x0 x1 y0 y1 width height y x \<longleftrightarrow>
     x0 * width \<le> 100 * x \<and> 100 * x \<le> x1 * width
       \<and> y0 * height \<le> 100 * y \<and> 100 * y \<le> y1 * height"

definition int_clipboard :: "int \<Rightarrow> int \<Rightarrow> int \<Rightarrow> int \<Rightarrow> int \<times> int \<times> int \<Rightarrow> int \<times> int \<times> int" where
  "int_clipboard width height y x rgb =
     (if int_box 30 75 20 85 width height y x then
        if int_box 40 60 15 35 width height y x then (70, 70, 75)
        else if int_box 35 70 55 70 width height y x then (102, 126, 234)
        else (245, 245, 245)
      else rgb)"

definition int_pixel :: "int \<Rightarrow> int \<Rightarrow> int \<Rightarrow> int \<Rightarrow> int list" where
  "int_pixel width height y x =
     (case int_clipboard width height y x (int_rgb width height y x) of
        (r, g, b) \<Rightarrow> [b, g, r, 255])"

text \<open>The rows of the picture and the image they make.\<close>

definition int_row :: "int \<Rightarrow> int \<Rightarrow> int \<Rightarrow> int list" where
  "int_row width height y = concat (map (int_pixel width height y) (py_range width))"

definition int_rows :: "int \<Rightarrow> int \<Rightarrow> int list list" where
  "int_rows width height = map (int_row width height) (py_range height)"

definition int_image_bytes :: "int \<Rightarrow> int \<Rightarrow> bytes" where
  "int_image_bytes width height =
     header_bytes width height @ map word_of_int (concat (int_rows width height))
       @ replicate (nat (mask_size width height)) 0"

section \<open>Auxiliary notions for the blue channel\<close>

definition blue_sum_fl :: "int \<Rightarrow> int \<Rightarrow> int \<Rightarrow> int \<Rightarrow> rat" where
  "blue_sum_fl width height y x = fl (fl (of_int x / of_int width) + fl (of_int y / of_int height))"

definition blue_safe :: "int \<Rightarrow> int \<Rightarrow> int \<Rightarrow> int \<Rightarrow> bool" where
  "blue_safe width height y x \<longleftrightarrow>
     (width * height dvd 36 * (x * height + y * width)
        \<longrightarrow> 36 * (x * height + y * width) \<le> 63 * (width * height))"

definition blue_agrees :: "int \<Rightarrow> int \<Rightarrow> int \<Rightarrow> int \<Rightarrow> bool" where
  "blue_agrees width height y x \<longleftrightarrow>
     py_int (fl (234 + fl (- 72 * blue_sum_fl width height y x) / 2))
       = 234 + - 36 * (x * height + y * width) div (width * height)"

section \<open>Red and green\<close>

lemma red_int:
  assumes "0 \<le> x" and "x < width" and "width \<le> 2 ^ 38"
  shows "py_int (fadd (float_of_int 102)
           (fmul (float_of_int (118 - 102)) (fl (of_int x / of_int width))))
    = 102 + 16 * x div width"
proof -
  define q :: rat where "q = of_int x / of_int width"
  define p where "p = fl (16 * fl q)"
  from assms have w: "0 < width" by simp
  note f = unit_fraction_bounds [OF assms, folded q_def]
  have "\<bar>p - 16 * fl q\<bar> \<le> 2 ^ 5 / 2 ^ 54"
    unfolding p_def using f(2,3) by (intro fl_error_pow) simp
  from abs_error_scale [OF f(1) this] have "\<bar>p - 16 * q\<bar> \<le> 48 / 2 ^ 54" by simp
  moreover have "(102 + p) - (of_int 102 + of_int (16 * x) / of_int width) = p - 16 * q"
    by (simp add: q_def)
  ultimately have "\<bar>(102 + p) - (of_int 102 + of_int (16 * x) / of_int width)\<bar> \<le> 48 / 2 ^ 54"
    by simp
  moreover have "0 \<le> 16 * x div width" "16 * x div width < 16"
    using int_div_bounds [OF w, of 0 "16 * x" 16] assms by simp_all
  ultimately have "py_int (fl (102 + p)) = 102 + 16 * x div width"
    using w assms(3) by (intro py_int_fl_quotient [where j = 6 and e = "48 / 2 ^ 54"]) simp_all
  then show ?thesis by (simp add: fadd_def fmul_def p_def q_def)
qed

lemma green_int:
  assumes "0 \<le> y" and "y < height" and "height \<le> 2 ^ 38"
  shows "py_int (fadd (float_of_int 126)
           (fmul (float_of_int (75 - 126)) (fl (of_int y / of_int height))))
    = 126 + - 51 * y div height"
proof -
  define q :: rat where "q = of_int y / of_int height"
  define p where "p = fl (- 51 * fl q)"
  from assms have h: "0 < height" by simp
  note f = unit_fraction_bounds [OF assms, folded q_def]
  have "\<bar>p - - 51 * fl q\<bar> \<le> 2 ^ 6 / 2 ^ 54"
    unfolding p_def using f(2,3) by (intro fl_error_pow) simp
  from abs_error_scale [OF f(1) this] have "\<bar>p - - 51 * q\<bar> \<le> 115 / 2 ^ 54" by simp
  moreover have "(126 + p) - (of_int 126 + of_int (- 51 * y) / of_int height) = p - - 51 * q"
    by (simp add: q_def)
  ultimately have "\<bar>(126 + p) - (of_int 126 + of_int (- 51 * y) / of_int height)\<bar>
      \<le> 115 / 2 ^ 54"
    by simp
  moreover have "- 51 \<le> - 51 * y div height" "- 51 * y div height < 1"
    using int_div_bounds [OF h, of "- 51" "- 51 * y" 1] assms by simp_all
  ultimately have "py_int (fl (126 + p)) = 126 + - 51 * y div height"
    using h assms(3) by (intro py_int_fl_quotient [where j = 6 and e = "115 / 2 ^ 54"]) simp_all
  then show ?thesis by (simp add: fadd_def fmul_def p_def q_def)
qed

section \<open>Blue\<close>

lemma blue_sum:
  assumes "0 \<le> x" "x < width" "0 \<le> y" "y < height" "width * height \<le> 2 ^ 38"
  defines "s \<equiv> fl (fl (of_int x / of_int width) + fl (of_int y / of_int height))"
    and "v \<equiv> (of_int (x * height + y * width) :: rat) / of_int (width * height)"
  shows "\<bar>s - v\<bar> \<le> 4 / 2 ^ 54" and "0 \<le> s" and "s \<le> 2"
    and "s = 0 \<or> 2 powi (- 1021) \<le> s"
proof -
  let ?f1 = "fl (of_int x / of_int width)" and ?f2 = "fl (of_int y / of_int height)"
  from assms(1-4) have w: "0 < width" and h: "0 < height" by simp_all
  have "width * 1 \<le> width * height" "1 * height \<le> width * height"
    using w h by (simp_all only: mult_le_cancel_left_pos mult_le_cancel_right_pos)
  with assms(5) have b: "width \<le> 2 ^ 38" "height \<le> 2 ^ 38" by simp_all
  note f1 = unit_fraction_bounds [OF assms(1,2) b(1)]
  note f2 = unit_fraction_bounds [OF assms(3,4) b(2)]
  have r: "0 \<le> ?f1 + ?f2" "?f1 + ?f2 < 2" using f1(2,3) f2(2,3) by simp_all
  then have "\<bar>s - (?f1 + ?f2)\<bar> \<le> 2 ^ 1 / 2 ^ 54" unfolding s_def by (intro fl_error_pow) simp
  from abs_error_add [OF f1(1) f2(1) this]
  show "\<bar>s - v\<bar> \<le> 4 / 2 ^ 54" unfolding v_def sum_fractions [OF w h, symmetric] by simp
  from r show "0 \<le> s" "s \<le> 2"
    using fl_between [of 0 "?f1 + ?f2" 2] by (simp_all add: s_def)
  show "s = 0 \<or> 2 powi (- 1021) \<le> s"
  proof (cases "x = 0 \<and> y = 0")
    case True
    then show ?thesis by (simp add: s_def)
  next
    case False
    with f1(2,4) f2(2,4) have "of_int 1 / 2 ^ 38 \<le> ?f1 + ?f2" by auto
    then have "fl (of_int 1 / 2 ^ 38) \<le> s" unfolding s_def by (rule fl_mono)
    moreover have "fl (of_int 1 / 2 ^ 38) = of_int 1 / 2 ^ 38" by (intro fl_div_pow2) simp_all
    moreover have "(of_int 1 :: rat) / 2 ^ 38 = 2 powi (- 38)" by (simp add: power_int_minus)
    moreover have "(2::rat) powi (- 1021) \<le> 2 powi (- 38)" by (simp only: two_powi_le_iff)
    ultimately show ?thesis by simp
  qed
qed

lemma blue_value:
  assumes "0 \<le> x" "x < width" "0 \<le> y" "y < height" "width * height \<le> 2 ^ 38"
  defines "p \<equiv> fl (- 72 * blue_sum_fl width height y x)"
  shows "fdiv (fmul (float_of_int (162 - 234))
                 (fadd (fl (of_int x / of_int width)) (fl (of_int y / of_int height))))
               (float_of_int 2) = Inr (p / 2)"
    and "py_int (fadd (float_of_int 234) (p / 2)) = py_int (fl (234 + p / 2))"
proof -
  note s = blue_sum [OF assms(1-5), folded blue_sum_fl_def]
  have "fl (p / 2) = p / 2" unfolding p_def using s(2,4) by (intro fl_half) auto
  then have "fl (fl (- 72 * blue_sum_fl width height y x) / 2) = p / 2" by (simp only: p_def)
  then show "fdiv (fmul (float_of_int (162 - 234))
                 (fadd (fl (of_int x / of_int width)) (fl (of_int y / of_int height))))
               (float_of_int 2) = Inr (p / 2)"
    by (simp add: fdiv_def fmul_def fadd_def blue_sum_fl_def)
  show "py_int (fadd (float_of_int 234) (p / 2)) = py_int (fl (234 + p / 2))"
    by (simp add: fadd_def)
qed

lemma blue_error:
  assumes "0 \<le> x" "x < width" "0 \<le> y" "y < height" "width * height \<le> 2 ^ 38"
    and "\<bar>p - - 72 * blue_sum_fl width height y x\<bar> \<le> e"
  shows "\<bar>(234 + p / 2)
      - (of_int 234 + of_int (- 36 * (x * height + y * width)) / of_int (width * height))\<bar>
    \<le> (288 / 2 ^ 54 + e) / 2"
proof -
  define v :: rat where "v = of_int (x * height + y * width) / of_int (width * height)"
  note s = blue_sum [OF assms(1-5), folded blue_sum_fl_def, folded v_def]
  from abs_error_scale [OF s(1) assms(6)] have a: "\<bar>p - - 72 * v\<bar> \<le> 288 / 2 ^ 54 + e" by simp
  have "(234 + p / 2)
      - (of_int 234 + of_int (- 36 * (x * height + y * width)) / of_int (width * height))
    = (p - - 72 * v) / 2"
    by (simp add: v_def)
  then show ?thesis using a by (simp only: abs_divide) simp
qed

lemma blue_range:
  fixes x y width height :: int
  assumes "0 \<le> x" "x < width" "0 \<le> y" "y < height"
  shows "- 72 \<le> - 36 * (x * height + y * width) div (width * height)"
    and "- 36 * (x * height + y * width) div (width * height) < 1"
proof -
  from assms have w: "0 < width" and h: "0 < height" by simp_all
  then have d: "0 < width * height" by simp
  have "x * height \<le> width * height" "y * width \<le> height * width"
    "0 \<le> x * height" "0 \<le> y * width"
    using assms w h by (simp_all add: mult_right_mono)
  then have "0 \<le> x * height + y * width" "x * height + y * width \<le> 2 * (width * height)"
    by (simp_all add: mult.commute)
  then show "- 72 \<le> - 36 * (x * height + y * width) div (width * height)"
    "- 36 * (x * height + y * width) div (width * height) < 1"
    using int_div_bounds [OF d, of "- 72" "- 36 * (x * height + y * width)" 1] d by simp_all
qed

lemma blue_int:
  assumes xy: "0 \<le> x" "x < width" "0 \<le> y" "y < height" and wh: "width * height \<le> 2 ^ 38"
    and safe: "blue_safe width height y x"
  shows "py_int (fl (234 + fl (- 72 * blue_sum_fl width height y x) / 2))
    = 234 + - 36 * (x * height + y * width) div (width * height)"
proof -
  define t where "t = x * height + y * width"
  define d where "d = width * height"
  define p where "p = fl (- 72 * blue_sum_fl width height y x)"
  note s = blue_sum [OF xy wh, folded blue_sum_fl_def t_def d_def]
  note err = blue_error [OF xy wh, of p, folded t_def d_def]
  note n = blue_range [OF xy, folded t_def d_def]
  from xy have d: "0 < d" by (simp add: d_def)
  have "py_int (fl (234 + p / 2)) = 234 + - 36 * t div d"
  proof (cases "36 * t \<le> 63 * d")
    case True
    then have "(of_int (36 * t) :: rat) \<le> of_int (63 * d)" by (simp only: of_int_le_iff)
    then have "(of_int t :: rat) / of_int d \<le> 63 / 36" using d by (simp add: field_simps)
    from abs_error_upper [OF s(1) this] s(2)
    have "\<bar>- 72 * blue_sum_fl width height y x\<bar> < 2 ^ 7" by (simp add: abs_mult)
    then have "\<bar>p - - 72 * blue_sum_fl width height y x\<bar> \<le> 2 ^ 7 / 2 ^ 54"
      unfolding p_def by (rule fl_error_pow)
    from err [OF this] show ?thesis
      using d wh n
      by (intro py_int_fl_quotient [where j = 7 and e = "(288 / 2 ^ 54 + 2 ^ 7 / 2 ^ 54) / 2"])
         (simp_all add: d_def)
  next
    case False
    with safe have "\<not> d dvd 36 * t" unfolding blue_safe_def d_def t_def by blast
    then have nd: "\<not> d dvd - 36 * t"
      by (simp only: mult_minus_left dvd_minus_iff not_False_eq_True)
    from s(2,3) have "\<bar>- 72 * blue_sum_fl width height y x\<bar> < 2 ^ 8" by simp
    then have "\<bar>p - - 72 * blue_sum_fl width height y x\<bar> \<le> 2 ^ 8 / 2 ^ 54"
      unfolding p_def by (rule fl_error_pow)
    from err [OF this] show ?thesis
      using d wh n nd
      by (intro py_int_fl_quotient [where j = 7 and e = "(288 / 2 ^ 54 + 2 ^ 8 / 2 ^ 54) / 2"])
         (simp_all add: d_def)
  qed
  then show ?thesis by (simp only: p_def t_def d_def)
qed

section \<open>The clipboard\<close>

lemma in_box_int:
  assumes "0 \<le> x" "x < width" "0 \<le> y" "y < height" "width \<le> 2 ^ 38" "height \<le> 2 ^ 38"
    and "0 \<le> x0" "x0 \<le> 100" "0 \<le> x1" "x1 \<le> 100" "0 \<le> y0" "y0 \<le> 100" "0 \<le> y1" "y1 \<le> 100"
  shows "in_box (of_int x0 / 100) (of_int x1 / 100) (of_int y0 / 100) (of_int y1 / 100)
           (fl (of_int x / of_int width)) (fl (of_int y / of_int height))
    \<longleftrightarrow> int_box x0 x1 y0 y1 width height y x"
proof -
  have w: "100 * width \<le> 2 ^ 50" "width * 100 \<le> 2 ^ 50"
    and h: "100 * height \<le> 2 ^ 50" "height * 100 \<le> 2 ^ 50"
    using assms(5,6) by simp_all
  have "fl (of_int x0 / of_int 100) \<le> fl (of_int x / of_int width) \<longleftrightarrow> x0 * width \<le> x * 100"
    "fl (of_int x / of_int width) \<le> fl (of_int x1 / of_int 100) \<longleftrightarrow> x * 100 \<le> x1 * width"
    "fl (of_int y0 / of_int 100) \<le> fl (of_int y / of_int height) \<longleftrightarrow> y0 * height \<le> y * 100"
    "fl (of_int y / of_int height) \<le> fl (of_int y1 / of_int 100) \<longleftrightarrow> y * 100 \<le> y1 * height"
    using assms w h by (intro fl_le_fractions; simp)+
  then show ?thesis by (simp add: in_box_def int_box_def mult.commute)
qed

text \<open>
  Where the exact blue value is an integer \<open>234 - k\<close> with \<open>k \<ge> 64\<close> the bound on
  the error is not enough; what is needed is a double \<open>c\<close> above the rounded sum
  of the two fractions with \<open>72 * c\<close> still rounding to \<open>2 * k\<close>.
\<close>

lemma blue_exact_point:
  assumes xy: "0 \<le> x" "x < width" "0 \<le> y" "y < height" and wh: "width * height \<le> 2 ^ 38"
    and k: "36 * (x * height + y * width) = k * (width * height)" "64 < k"
    and c: "fl (of_int (x * height + y * width) / of_int (width * height) + 2 / 2 ^ 54) \<le> c"
    and near: "\<bar>72 * c - of_int (2 * k)\<bar> < 2 ^ 7 / 2 ^ 53"
  shows "py_int (fl (234 + fl (- 72 * blue_sum_fl width height y x) / 2)) = 234 - k"
proof -
  define t where "t = x * height + y * width"
  define d where "d = width * height"
  define s where "s = blue_sum_fl width height y x"
  define p where "p = fl (- 72 * s)"
  from xy have w: "0 < width" and h: "0 < height" and d: "0 < d" by (simp_all add: d_def)
  have "width * 1 \<le> width * height" "1 * height \<le> width * height"
    using w h by (simp_all only: mult_le_cancel_left_pos mult_le_cancel_right_pos)
  with wh have b: "width \<le> 2 ^ 38" "height \<le> 2 ^ 38" by simp_all
  have kd: "- 36 * t = - k * d" using k(1) by (simp add: t_def d_def)
  have q: "(of_int (- 36 * t) :: rat) / of_int d = - of_int k"
    unfolding kd using d by simp
  have "- k * d div d = - k" using d by (intro nonzero_mult_div_cancel_right) simp
  then have "- 36 * t div d = - k" by (simp only: kd)
  with blue_range(1) [OF xy, folded t_def d_def] have k72: "k \<le> 72" by simp
  \<comment> \<open>the sum is at most \<open>c\<close>, so the product rounds to \<open>- 2 * k\<close> or above\<close>
  have "fl (of_int x / of_int width) + fl (of_int y / of_int height)
      \<le> of_int x / of_int width + of_int y / of_int height + 2 / 2 ^ 54"
    using unit_fraction_bounds(1) [OF xy(1,2) b(1)] unit_fraction_bounds(1) [OF xy(3,4) b(2)]
    by linarith
  then have "s \<le> fl (of_int t / of_int d + 2 / 2 ^ 54)"
    unfolding s_def blue_sum_fl_def t_def d_def sum_fractions [OF w h, symmetric] by (rule fl_mono)
  with c have "s \<le> c" by (simp add: t_def d_def)
  then have "fl (- (72 * c)) \<le> p" unfolding p_def by (intro fl_mono) simp
  moreover have "fl (72 * c) = of_int (2 * k)"
    using near k(2) k72 by (intro fl_int_near [where j = 7]) simp_all
  ultimately have lo: "of_int (234 - k) - 0 \<le> 234 + p / 2" by (simp add: fl_minus)
  \<comment> \<open>from above the error bound is enough\<close>
  have "\<bar>- 72 * s\<bar> < 2 ^ 8"
    using blue_sum(2,3) [OF xy wh, folded blue_sum_fl_def s_def] by simp
  then have "\<bar>p - - 72 * s\<bar> \<le> 2 ^ 8 / 2 ^ 54" unfolding p_def by (rule fl_error_pow)
  from abs_error_upper [OF blue_error [OF xy wh this [unfolded s_def], folded t_def d_def,
      unfolded q] order_refl]
  have "234 + p / 2 \<le> (of_int 234 + - of_int k) + (288 / 2 ^ 54 + 2 ^ 8 / 2 ^ 54) / 2" .
  also have "\<dots> \<le> of_int (234 - k) + 1 - 1 / 2 ^ 40" by simp
  finally have "234 + p / 2 \<le> of_int (234 - k) + 1 - 1 / 2 ^ 40" .
  with lo have "py_int (fl (234 + p / 2)) = 234 - k"
    using k(2) k72 by (intro py_int_fl_window [where j = 7 and e = 0]) simp_all
  then show ?thesis by (simp only: p_def s_def)
qed

text \<open>
  For a square image the exact blue value is an integer when \<open>n\<close> divides
  \<open>36 * (x + y)\<close>.
\<close>

lemma blue_safe_square:
  assumes "0 < n"
  shows "blue_safe n n y x \<longleftrightarrow> (n dvd 36 * (x + y) \<longrightarrow> 36 * (x + y) \<le> 63 * n)"
proof -
  have e: "36 * (x * n + y * n) = n * (36 * (x + y))" "63 * (n * n) = n * (63 * n)"
    by (simp_all add: algebra_simps)
  from assms show ?thesis
    unfolding blue_safe_def e by (simp only: dvd_mult_cancel_left mult_le_cancel_left_pos) simp
qed

lemma blue_unsafe_48:
  assumes "0 \<le> x" "x < 48" "0 \<le> y" "y < 48" "\<not> blue_safe 48 48 y x"
  shows "x + y = 88 \<or> x + y = 92"
proof -
  define t where "t = x + y"
  from assms(5) have "12 * 4 dvd 12 * (3 * t)" "63 * 48 < 36 * t"
    by (simp_all add: blue_safe_square t_def)
  then have "4 dvd 3 * t" "84 < t" by (simp_all only: dvd_mult_cancel_left) simp_all
  moreover from assms(2,4) have "t \<le> 94" by (simp add: t_def)
  ultimately have "t = 88 \<or> t = 92" by presburger
  then show ?thesis by (simp only: t_def)
qed

lemma blue_48:
  assumes "0 \<le> x" "x < 48" "0 \<le> y" "y < 48"
  shows "blue_agrees 48 48 y x"
proof (cases "blue_safe 48 48 y x")
  case True
  with assms show ?thesis unfolding blue_agrees_def by (intro blue_int) simp_all
next
  case False
  with assms have "x + y = 88 \<or> x + y = 92" by (intro blue_unsafe_48)
  then show ?thesis
  proof
    assume t: "x + y = 88"
    then have e: "x * 48 + y * 48 = 4224" by simp
    have "fl (11 / 6 + 2 / 2 ^ 54) = of_int 8256599316845910 / 2 ^ 52"
      by (rule fl_near_1_2) simp_all
    then have "py_int (fl (234 + fl (- 72 * blue_sum_fl 48 48 y x) / 2)) = 234 - 66"
      using assms
      by (intro blue_exact_point [where c = "of_int 8256599316845910 / 2 ^ 52"])
         (simp_all add: e)
    then show ?thesis by (simp add: blue_agrees_def e)
  next
    assume t: "x + y = 92"
    then have e: "x * 48 + y * 48 = 4416" by simp
    have "fl (23 / 12 + 2 / 2 ^ 54) = of_int 8631899285793451 / 2 ^ 52"
      by (rule fl_near_1_2) simp_all
    then have "py_int (fl (234 + fl (- 72 * blue_sum_fl 48 48 y x) / 2)) = 234 - 69"
      using assms
      by (intro blue_exact_point [where c = "of_int 8631899285793451 / 2 ^ 52"])
         (simp_all add: e)
    then show ?thesis by (simp add: blue_agrees_def e)
  qed
qed

section \<open>Pixels\<close>

lemma dims_le:
  fixes width height :: int
  assumes "0 < width" "0 < height" "width * height \<le> 2 ^ 38"
  shows "width \<le> 2 ^ 38" "height \<le> 2 ^ 38"
proof -
  have "width * 1 \<le> width * height" "1 * height \<le> width * height"
    using assms(1,2) by (simp_all only: mult_le_cancel_left_pos mult_le_cancel_right_pos)
  with assms(3) show "width \<le> 2 ^ 38" "height \<le> 2 ^ 38" by simp_all
qed

lemma gradient_int:
  assumes xy: "0 \<le> x" "x < width" "0 \<le> y" "y < height" and wh: "width * height \<le> 2 ^ 38"
    and b: "blue_agrees width height y x"
  shows "gradient (fl (of_int x / of_int width)) (fl (of_int y / of_int height))
    = Inr (int_rgb width height y x)"
proof -
  from xy have "0 < width" "0 < height" by simp_all
  note d = dims_le [OF this wh]
  note v = blue_value [OF xy wh]
  show ?thesis
    unfolding gradient_def Let_def v(1)
    using red_int [OF xy(1,2) d(1)] green_int [OF xy(3,4) d(2)] b
    by (simp add: fadd_def int_rgb_def blue_agrees_def)
qed

lemma draw_clipboard_int:
  assumes "0 \<le> x" "x < width" "0 \<le> y" "y < height" "width \<le> 2 ^ 38" "height \<le> 2 ^ 38"
  shows "draw_clipboard (fl (of_int x / of_int width)) (fl (of_int y / of_int height)) rgb
    = int_clipboard width height y x rgb"
  using in_box_int [OF assms, of 30 75 20 85] in_box_int [OF assms, of 40 60 15 35]
    in_box_int [OF assms, of 35 70 55 70]
  by (simp add: draw_clipboard_def int_clipboard_def)

text \<open>Where the clip is drawn: inside its box and inside the body of the clipboard.\<close>

lemma int_clipboard_clip_iff:
  assumes "0 < width" and "0 < height" and "rgb \<noteq> (70, 70, 75)"
  shows "int_clipboard width height y x rgb = (70, 70, 75)
    \<longleftrightarrow> int_box 40 60 20 35 width height y x"
  using assms by (auto simp: int_clipboard_def int_box_def)

lemma icon_pixel_int:
  assumes xy: "0 \<le> x" "x < width" "0 \<le> y" "y < height" and wh: "width * height \<le> 2 ^ 38"
    and b: "blue_agrees width height y x"
  shows "icon_pixel width height y x = Inr (int_pixel width height y x)"
proof -
  from xy have "0 < width" "0 < height" by simp_all
  note d = dims_le [OF this wh]
  from xy show ?thesis
    by (simp add: icon_pixel_def py_truediv_ok gradient_int [OF xy wh b]
        draw_clipboard_int [OF xy d] int_pixel_def split: prod.splits)
qed

lemma blue_safe_16_32:
  assumes "0 \<le> x" "x < sz" "0 \<le> y" "y < sz" "sz = 16 \<or> sz = 32"
  shows "blue_safe sz sz y x"
proof -
  define t where "t = x + y"
  have "36 * t \<le> 63 * 16" if "4 * 4 dvd 4 * (8 * t + t)" "t \<le> 30"
  proof -
    from that(1) have "4 dvd 8 * t + t" using dvd_mult_cancel_left [of 4 4 "8 * t + t"] by simp
    moreover have "4 dvd 8 * t" by simp
    ultimately have "4 dvd t" by (simp only: dvd_add_right_iff)
    then obtain k where "t = 4 * k" ..
    with that(2) show ?thesis by simp
  qed
  moreover have "36 * t \<le> 63 * 32" if "4 * 8 dvd 4 * (8 * t + t)" "t \<le> 62"
  proof -
    from that(1) have "8 dvd 8 * t + t" using dvd_mult_cancel_left [of 4 8 "8 * t + t"] by simp
    moreover have "8 dvd 8 * t" by simp
    ultimately have "8 dvd t" by (simp only: dvd_add_right_iff)
    then obtain k where "t = 8 * k" ..
    with that(2) show ?thesis by simp
  qed
  moreover have "sz = 16 \<Longrightarrow> t \<le> 30" "sz = 32 \<Longrightarrow> t \<le> 62"
    using assms(2,4) by (simp_all add: t_def)
  ultimately show ?thesis using assms(5) by (auto simp: blue_safe_square t_def)
qed

lemma blue_agrees_shipped:
  assumes "0 \<le> x" "x < sz" "0 \<le> y" "y < sz" "sz \<in> {16, 32, 48}"
  shows "blue_agrees sz sz y x"
proof (cases "sz = 48")
  case True
  with assms show ?thesis by (simp add: blue_48)
next
  case False
  with assms have s: "sz = 16 \<or> sz = 32" by simp
  from blue_safe_16_32 [OF assms(1-4) this] assms(1-4) s show ?thesis
    unfolding blue_agrees_def by (intro blue_int) auto
qed

lemma icon_pixel_shipped:
  assumes "0 \<le> x" "x < sz" "0 \<le> y" "y < sz" "sz \<in> {16, 32, 48}"
  shows "icon_pixel sz sz y x = Inr (int_pixel sz sz y x)"
  using assms by (intro icon_pixel_int blue_agrees_shipped) auto

section \<open>Rows and images\<close>

lemma bgra_int:
  assumes "0 \<le> x" "x < width" "0 \<le> y" "y < height" "width * height \<le> 2 ^ 38"
    and "blue_agrees width height y x"
  shows "bgra width height y x = int_pixel width height y x"
  by (simp add: bgra_def icon_pixel_int [OF assms])

lemma pixel_rows_int:
  assumes "width * height \<le> 2 ^ 38"
    and "\<And>x y. 0 \<le> x \<Longrightarrow> x < width \<Longrightarrow> 0 \<le> y \<Longrightarrow> y < height \<Longrightarrow> blue_agrees width height y x"
  shows "pixel_rows width height = int_rows width height"
  unfolding pixel_rows_def int_rows_def int_row_def
  by (intro map_cong arg_cong [where f = concat] refl) (auto intro!: bgra_int assms)

lemma image_bytes_int:
  assumes "width * height \<le> 2 ^ 38"
    and "\<And>x y. 0 \<le> x \<Longrightarrow> x < width \<Longrightarrow> 0 \<le> y \<Longrightarrow> y < height \<Longrightarrow> blue_agrees width height y x"
  shows "image_bytes width height = int_image_bytes width height"
  by (simp add: image_bytes_def int_image_bytes_def pixel_bytes_def pixel_rows_int [OF assms])

lemma image_bytes_shipped:
  assumes "sz \<in> {16, 32, 48}"
  shows "image_bytes sz sz = int_image_bytes sz sz"
  using assms by (intro image_bytes_int blue_agrees_shipped) auto

lemma length_int_pixel [simp]: "length (int_pixel width height y x) = 4"
  by (simp add: int_pixel_def split: prod.splits)

lemma length_int_row [simp]: "length (int_row width height y) = 4 * nat width"
  unfolding int_row_def by (subst length_concat_map_const [where k = 4]) simp_all

lemma length_int_rows [simp]: "length (int_rows width height) = nat height"
  by (simp add: int_rows_def)

text \<open>Row \<open>i\<close> of the stored image is row \<open>i\<close> of the drawing.\<close>

lemma read_row_int:
  assumes "0 \<le> width" and "0 \<le> i" and "i < height"
  shows "read_row (int_image_bytes width height) width 32 i
    = map word_of_int (int_row width height i)"
proof -
  let ?f = "\<lambda>y. map word_of_int (int_row width height y) :: bytes"
  let ?k = "4 * nat width"
  have c: "map word_of_int (concat (int_rows width height)) = concat (map ?f (py_range height))"
    by (simp add: int_rows_def map_concat comp_def)
  have len: "length (concat (map ?f (py_range height))) = ?k * nat height"
    by (subst length_concat_map_const [where k = ?k]) simp_all
  have n: "nat i < length (py_range height)" using assms by simp
  from assms(2,3) have "Suc (nat i) \<le> nat height" by linarith
  then have "Suc (nat i) * ?k \<le> nat height * ?k" by (rule mult_le_mono1)
  then have "Suc (nat i) * ?k \<le> ?k * nat height" by (simp only: mult.commute)
  then have "int (Suc (nat i) * ?k) \<le> int (length (concat (map ?f (py_range height))))"
    by (simp only: len of_nat_le_iff)
  then have "py_slice (header_bytes width height @ concat (map ?f (py_range height))
        @ replicate (nat (mask_size width height)) 0)
      (40 + int (nat i * ?k)) (40 + int (Suc (nat i) * ?k))
    = drop (nat (int (nat i * ?k))) (take (nat (int (Suc (nat i) * ?k)))
        (concat (map ?f (py_range height))))"
    by (intro py_slice_inside) simp_all
  also have "\<dots> = ?f (py_range height ! nat i)"
    using n by (simp only: nat_int) (intro row_of_concat, simp_all)
  finally show ?thesis
    using assms by (simp add: read_row_def int_image_bytes_def c row_stride_32 algebra_simps)
qed


lemma read_row_shipped:
  assumes "sz \<in> {16, 32, 48}" and "0 \<le> y" and "y < sz"
  shows "\<exists>img. create_icon_data sz sz = Inr img
    \<and> read_row img sz 32 y = map word_of_int (int_row sz sz y)
    \<and> displayed_row img sz sz 32 y = map word_of_int (int_row sz sz (sz - 1 - y))"
proof -
  from assms(1) have v: "valid_dims sz sz" by (auto simp: valid_dims_def)
  from assms have "0 \<le> sz" "0 \<le> sz - 1 - y" "sz - 1 - y < sz" by auto
  then show ?thesis
    using assms
    by (simp add: create_icon_data_ok [OF v] image_bytes_shipped displayed_row_def read_row_int)
qed

section \<open>Properties\<close>

text \<open>
  C24. A pixel computed in floating point is the pixel of the integer picture:
  inside the loops, for all dimensions up to \<open>2^38\<close> pixels,
  \<open>icon_pixel\<close> returns \<open>int_pixel\<close>, provided the exact blue value is not an
  integer of 170 or less.
\<close>

theorem icon_pixel_integer:
  assumes "0 \<le> x" and "x < width" and "0 \<le> y" and "y < height" and "width * height \<le> 2 ^ 38"
    and "width * height dvd 36 * (x * height + y * width)
      \<longrightarrow> 36 * (x * height + y * width) \<le> 63 * (width * height)"
  shows "icon_pixel width height y x = Inr (int_pixel width height y x)"
proof -
  from assms(6) have "blue_safe width height y x" by (simp only: blue_safe_def)
  with assms(1-5) have "blue_agrees width height y x"
    unfolding blue_agrees_def by (intro blue_int)
  with assms(1-5) show ?thesis by (intro icon_pixel_int)
qed

theorem icon_pixel_integer_witness:
  "icon_pixel 20 20 13 7 = Inr [234, 126, 102, 255] \<and> icon_pixel 20 20 19 7 = Inr [187, 77, 107, 255]"
  using icon_pixel_integer [of 7 20 13] icon_pixel_integer [of 7 20 19]
  by (simp add: int_pixel_def int_clipboard_def int_box_def int_rgb_def)

text \<open>
  C10. Every pixel of the three shipped sizes is the pixel of the integer
  picture, the ten pixels of size 48 included where the exact blue value is
  the integer 168 or 165.
\<close>

theorem icon_pixel_shipped_sizes:
  assumes "sz = 16 \<or> sz = 32 \<or> sz = 48" and "0 \<le> x" and "x < sz" and "0 \<le> y" and "y < sz"
  shows "icon_pixel sz sz y x = Inr (int_pixel sz sz y x)"
  using assms by (intro icon_pixel_shipped) auto

theorem icon_pixel_shipped_sizes_witness:
  "icon_pixel 48 48 47 41 = Inr [168, 76, 115, 255] \<and> icon_pixel 16 16 4 7 = Inr [75, 70, 70, 255]"
  using icon_pixel_shipped_sizes [of 48 41 47] icon_pixel_shipped_sizes [of 16 7 4]
  by (simp add: int_pixel_def int_clipboard_def int_box_def int_rgb_def)

text \<open>
  The comparisons of the clipboard drawing: comparing the rounded
  \<^verbatim>\<open>x / width\<close> with the rounded constants \<^verbatim>\<open>0.3\<close>, \<^verbatim>\<open>0.75\<close> and so on selects
  the same pixels as comparing \<open>100 * x\<close> with \<open>30 * width\<close>, \<open>75 * width\<close> in
  integers.
\<close>

theorem draw_clipboard_integer:
  assumes "0 \<le> x" and "x < width" and "0 \<le> y" and "y < height"
    and "width \<le> 2 ^ 38" and "height \<le> 2 ^ 38"
  shows "draw_clipboard (fl (of_int x / of_int width)) (fl (of_int y / of_int height)) rgb
    = int_clipboard width height y x rgb"
  using assms by (rule draw_clipboard_int)

theorem draw_clipboard_integer_witness:
  "draw_clipboard (fl (12 / 16)) (fl (3 / 16)) (1, 2, 3) = (1, 2, 3)
    \<and> draw_clipboard (fl (12 / 16)) (fl (4 / 16)) (1, 2, 3) = (245, 245, 245)"
  using draw_clipboard_integer [of 12 16 3 16 "(1, 2, 3)"]
    draw_clipboard_integer [of 12 16 4 16 "(1, 2, 3)"]
  by (simp add: int_clipboard_def int_box_def)

text \<open>
  C11. The file the shipped script writes, without floating point: header, three
  directory entries with the offsets 54, 1182 and 5446, and the three images
  with the pixels of the integer picture.
\<close>

theorem create_ico_file_pixels:
  "create_ico_file = Inr (le_bytes 2 0 @ le_bytes 2 1 @ le_bytes 2 3
     @ entry_bytes (16, int_image_bytes 16 16) 54
     @ entry_bytes (32, int_image_bytes 32 32) 1182
     @ entry_bytes (48, int_image_bytes 48 48) 5446
     @ int_image_bytes 16 16 @ int_image_bytes 32 32 @ int_image_bytes 48 48)"
proof -
  have "py_len (image_bytes 16 16) = 1128" "py_len (image_bytes 32 32) = 4264"
    by (simp_all add: py_len_image_bytes image_size_def mask_size_def)
  then show ?thesis
    by (simp add: create_ico_file_def ico_file_of_ok fits_container_shipped ico_bytes_def
      flip: image_bytes_shipped)
qed

text \<open>
  C13. The rows are stored in the order they are drawn, top row first. The
  format counts the stored rows from the bottom of the picture, so that a
  reader shows at line \<open>y\<close> the row drawn for line \<open>size - 1 - y\<close>: the icon
  is upside down.
\<close>

theorem stored_rows_top_down:
  assumes "sz = 16 \<or> sz = 32 \<or> sz = 48" and "0 \<le> y" and "y < sz"
  shows "\<exists>img. create_icon_data sz sz = Inr img
    \<and> read_row img sz 32 y = map word_of_int (int_row sz sz y)
    \<and> displayed_row img sz sz 32 y = map word_of_int (int_row sz sz (sz - 1 - y))"
  using assms by (intro read_row_shipped) auto

theorem stored_rows_top_down_witness:
  "\<exists>img. create_icon_data 16 16 = Inr img
    \<and> read_row img 16 32 0 = map word_of_int (int_row 16 16 0)
    \<and> displayed_row img 16 16 32 0 = map word_of_int (int_row 16 16 15)
    \<and> hd (int_row 16 16 0) \<noteq> hd (int_row 16 16 15)"
  using stored_rows_top_down [of 16 0]
  by (simp add: int_row_def int_pixel_def int_clipboard_def int_box_def int_rgb_def py_eval)


end
