(* ===== verification/Simple_Icon.thy ===== *)
theory Simple_Icon
  imports Py_Struct Py_Float Ico_Format
begin

text \<open>
  \<^verbatim>\<open>generate_icon.py\<close>: one function, \<^verbatim>\<open>create_simple_ico\<close>, that writes an ICO file
  with a single image of 32 by 32 pixels at 24 bits per pixel. The function
  binds \<^verbatim>\<open>width, height = 32, 32\<close> and never changes them; the definitions
  below take the two as parameters, \<open>simple_ico_of\<close> is the body of the function
  and \<open>create_simple_ico\<close> is the body at 32 and 32, so that every statement on
  the layout is proved for all dimensions and read off at the shipped ones.

  The colour of a pixel is computed as \<^verbatim>\<open>int(c + a / d)\<close> with integers \<open>a\<close> and
  \<open>d\<close>: one correctly rounded division, one rounded addition, one truncation.
  \<open>simple_gradient\<close> keeps these three steps; \<open>int_gradient\<close> is the same formula
  in integer arithmetic, and the two are proved equal.
\<close>

section \<open>The script\<close>

definition simple_ico_header :: "bytes result" where
  "simple_ico_header = pack ''<HHH'' [0, 1, 1]"

definition bmp_info_header :: "int \<Rightarrow> int \<Rightarrow> bytes result" where
  "bmp_info_header width height =
     pack ''<IHHIIIIIIII'' [40, width, height * 2, 1, 24, 0, 0, 0, 0, 0, 0]"

definition simple_gradient :: "int \<Rightarrow> int \<Rightarrow> int \<Rightarrow> int \<Rightarrow> (int \<times> int \<times> int) result" where
  "simple_gradient width height y x =
     bind_res (py_truediv ((118 - 102) * x) width) (\<lambda>qr.
     let r = py_int (fadd (float_of_int 102) qr) in
     bind_res (py_truediv ((75 - 126) * y) height) (\<lambda>qg.
     let g = py_int (fadd (float_of_int 126) qg) in
     bind_res (py_truediv ((162 - 234) * (x + y)) (width + height)) (\<lambda>qb.
     let b = py_int (fadd (float_of_int 234) qb) in
       Inr (r, g, b))))"

definition simple_clipboard :: "int \<Rightarrow> int \<Rightarrow> int \<times> int \<times> int \<Rightarrow> int \<times> int \<times> int" where
  "simple_clipboard x y rgb =
     (if 10 \<le> x \<and> x \<le> 22 \<and> 6 \<le> y \<and> y \<le> 26 then
        if 13 \<le> x \<and> x \<le> 19 \<and> 5 \<le> y \<and> y \<le> 10 then (70, 70, 75)
        else if 12 \<le> x \<and> x \<le> 20 \<and> 18 \<le> y \<and> y \<le> 22 then (102, 126, 234)
        else (245, 245, 245)
      else rgb)"

definition simple_pixel :: "int \<Rightarrow> int \<Rightarrow> int \<Rightarrow> int \<Rightarrow> int list result" where
  "simple_pixel width height y x =
     bind_res (simple_gradient width height y x) (\<lambda>rgb.
       let (r, g, b) = simple_clipboard x y rgb in Inr [b, g, r])"

definition simple_pixels :: "int \<Rightarrow> int \<Rightarrow> int list result" where
  "simple_pixels width height =
     for_res (py_range height) (\<lambda>y pixels.
       for_res (py_range width) (\<lambda>x pixels.
         bind_res (simple_pixel width height y x) (\<lambda>px. Inr (pixels @ px))) pixels) []"

definition padded_rows :: "int list \<Rightarrow> int \<Rightarrow> int \<Rightarrow> bytes result" where
  "padded_rows pixels width height =
     (let row_size = ((width * 24 + 31) div 32) * 4;
          padding = row_size - (width * 3)
      in for_res (py_range height) (\<lambda>y pixel_data.
           let row_start = y * width * 3;
               row_end = row_start + width * 3
           in bind_res (py_bytes (py_slice pixels row_start row_end)) (\<lambda>row.
                Inr ((pixel_data @ row) @ py_repeat [0] padding))) [])"

definition simple_and_mask :: "int \<Rightarrow> int \<Rightarrow> bytes" where
  "simple_and_mask width height = py_repeat [0] (width * height div 8)"

definition ico_dir :: "int \<Rightarrow> int \<Rightarrow> int \<Rightarrow> bytes result" where
  "ico_dir width height data_size =
     pack ''<BBBBHHII'' [width, height, 0, 0, 1, 32, data_size, 22]"

definition simple_ico_of :: "int \<Rightarrow> int \<Rightarrow> bytes result" where
  "simple_ico_of width height =
     bind_res simple_ico_header (\<lambda>ico_header.
     bind_res (bmp_info_header width height) (\<lambda>hdr.
     bind_res (simple_pixels width height) (\<lambda>pixels.
     bind_res (padded_rows pixels width height) (\<lambda>pixel_data.
       let and_mask = simple_and_mask width height;
           bmp_data = hdr @ pixel_data @ and_mask;
           data_size = py_len bmp_data
       in bind_res (ico_dir width height data_size) (\<lambda>dir.
            Inr (ico_header @ dir @ bmp_data))))))"

definition create_simple_ico :: "bytes result" where
  "create_simple_ico = simple_ico_of 32 32"

section \<open>Reference values\<close>

text \<open>
  What the script is proved to return: the colours in integer arithmetic
  (\<open>int_gradient\<close>, \<open>simple_bgr\<close>, \<open>simple_rows\<close>), a row with its padding
  (\<open>pad_row\<close>), the image (\<open>simple_image\<close>) and the file (\<open>simple_ico_bytes\<close>);
  \<open>simple_dims\<close> are the dimensions for which the script returns.
\<close>

definition int_gradient :: "int \<Rightarrow> int \<Rightarrow> int \<Rightarrow> int \<Rightarrow> int \<times> int \<times> int" where
  "int_gradient width height y x =
     (102 + (118 - 102) * x div width,
      126 + (75 - 126) * y div height,
      234 + (162 - 234) * (x + y) div (width + height))"

definition simple_bgr :: "int \<Rightarrow> int \<Rightarrow> int \<Rightarrow> int \<Rightarrow> int list" where
  "simple_bgr width height y x =
     (case simple_clipboard x y (int_gradient width height y x) of (r, g, b) \<Rightarrow> [b, g, r])"

definition simple_rows :: "int \<Rightarrow> int \<Rightarrow> int list list" where
  "simple_rows width height =
     map (\<lambda>y. concat (map (simple_bgr width height y) (py_range width))) (py_range height)"

definition pad_row :: "int \<Rightarrow> int list \<Rightarrow> bytes" where
  "pad_row width row =
     map word_of_int row @ replicate (nat (row_stride width 24 - width * 3)) 0"

definition simple_pixel_data :: "int \<Rightarrow> int \<Rightarrow> bytes" where
  "simple_pixel_data width height = concat (map (pad_row width) (simple_rows width height))"

definition simple_dims :: "int \<Rightarrow> int \<Rightarrow> bool" where
  "simple_dims width height \<longleftrightarrow> 0 \<le> width \<and> width < 256 \<and> 0 \<le> height \<and> height < 256"

definition simple_header_bytes :: "int \<Rightarrow> int \<Rightarrow> bytes" where
  "simple_header_bytes width height =
     le_bytes 4 40 @ le_bytes 2 width @ le_bytes 2 (height * 2) @ le_bytes 4 1 @ le_bytes 4 24
       @ replicate 24 0"

definition simple_image :: "int \<Rightarrow> int \<Rightarrow> bytes" where
  "simple_image width height =
     simple_header_bytes width height @ simple_pixel_data width height
       @ replicate (nat (width * height div 8)) 0"

definition simple_image_size :: "int \<Rightarrow> int \<Rightarrow> int" where
  "simple_image_size width height = 40 + height * row_stride width 24 + width * height div 8"

definition simple_entry_bytes :: "int \<Rightarrow> int \<Rightarrow> int \<Rightarrow> bytes" where
  "simple_entry_bytes width height data_size =
     le_bytes 1 width @ le_bytes 1 height @ le_bytes 1 0 @ le_bytes 1 0 @ le_bytes 2 1
       @ le_bytes 2 32 @ le_bytes 4 data_size @ le_bytes 4 22"

definition simple_ico_bytes :: "int \<Rightarrow> int \<Rightarrow> bytes" where
  "simple_ico_bytes width height =
     le_bytes 2 0 @ le_bytes 2 1 @ le_bytes 2 1
       @ simple_entry_bytes width height (simple_image_size width height)
       @ simple_image width height"

section \<open>Colours\<close>

lemma simple_gradient_int:
  assumes "0 \<le> x" "x < width" "0 \<le> y" "y < height" "width + height \<le> 2 ^ 40"
  shows "simple_gradient width height y x = Inr (int_gradient width height y x)"
proof -
  from assms have w: "0 < width" "width \<le> 2 ^ 40" and h: "0 < height" "height \<le> 2 ^ 40"
    and s: "0 < width + height" by simp_all
  have r: "0 \<le> 16 * x div width" "16 * x div width < 16"
    using int_div_bounds [OF w(1), of 0 "16 * x" 16] assms by simp_all
  have g: "- 51 \<le> - 51 * y div height" "- 51 * y div height < 1"
    using int_div_bounds [OF h(1), of "- 51" "- 51 * y" 1] assms by simp_all
  have b: "- 72 \<le> - 72 * (x + y) div (width + height)" "- 72 * (x + y) div (width + height) < 1"
    using int_div_bounds [OF s, of "- 72" "- 72 * (x + y)" 1] assms by simp_all
  have "py_int (fl (of_int 102 + fl (of_int (16 * x) / of_int width))) = 102 + 16 * x div width"
    using r by (intro py_int_plus_quotient w) simp_all
  moreover
  have "py_int (fl (of_int 126 + fl (of_int (- 51 * y) / of_int height))) = 126 + - 51 * y div height"
    using g by (intro py_int_plus_quotient h) simp_all
  moreover
  have "py_int (fl (of_int 234 + fl (of_int (- 72 * (x + y)) / of_int (width + height))))
      = 234 + - 72 * (x + y) div (width + height)"
    using b by (intro py_int_plus_quotient s assms(5)) simp_all
  moreover have "py_truediv (16 * x) width = Inr (fl (of_int (16 * x) / of_int width))"
    "py_truediv (- (51 * y)) height = Inr (fl (of_int (- (51 * y)) / of_int height))"
    "py_truediv (- (72 * x) - 72 * y) (width + height)
      = Inr (fl (of_int (- (72 * x) - 72 * y) / of_int (width + height)))"
    using assms(1-4) by (intro py_truediv_ok; simp)+
  ultimately show ?thesis
    by (simp add: simple_gradient_def int_gradient_def fadd_def)
qed

lemma int_gradient_range:
  assumes "0 \<le> x" "x < width" "0 \<le> y" "y < height"
  shows "\<exists>r g b. int_gradient width height y x = (r, g, b)
    \<and> 102 \<le> r \<and> r \<le> 117 \<and> 75 \<le> g \<and> g \<le> 126 \<and> 162 \<le> b \<and> b \<le> 234"
proof -
  from assms have w: "0 < width" and h: "0 < height" and s: "0 < width + height" by simp_all
  have "0 \<le> 16 * x div width" "16 * x div width < 16"
    using int_div_bounds [OF w, of 0 "16 * x" 16] assms by simp_all
  moreover have "- 51 \<le> - 51 * y div height" "- 51 * y div height < 1"
    using int_div_bounds [OF h, of "- 51" "- 51 * y" 1] assms by simp_all
  moreover
  have "- 72 \<le> - 72 * (x + y) div (width + height)" "- 72 * (x + y) div (width + height) < 1"
    using int_div_bounds [OF s, of "- 72" "- 72 * (x + y)" 1] assms by simp_all
  ultimately show ?thesis by (simp add: int_gradient_def)
qed

lemma simple_clipboard_clip_iff:
  assumes "rgb \<noteq> (70, 70, 75)"
  shows "simple_clipboard x y rgb = (70, 70, 75) \<longleftrightarrow> 13 \<le> x \<and> x \<le> 19 \<and> 6 \<le> y \<and> y \<le> 10"
  using assms by (auto simp: simple_clipboard_def)

lemma simple_clipboard_cases:
  "simple_clipboard x y rgb = rgb
    \<or> simple_clipboard x y rgb \<in> {(70, 70, 75), (102, 126, 234), (245, 245, 245)}"
  by (simp add: simple_clipboard_def)

lemma simple_bgr_bytes:
  assumes "0 \<le> x" "x < width" "0 \<le> y" "y < height"
  shows "length (simple_bgr width height y x) = 3"
    and "list_all is_byte_value (simple_bgr width height y x)"
  using int_gradient_range [OF assms] simple_clipboard_cases [of x y "int_gradient width height y x"]
  by (auto simp: simple_bgr_def is_byte_value_def)

lemma simple_pixel_ok:
  assumes "0 \<le> x" "x < width" "0 \<le> y" "y < height" "width + height \<le> 2 ^ 40"
  shows "simple_pixel width height y x = Inr (simple_bgr width height y x)"
  by (simp add: simple_pixel_def simple_gradient_int [OF assms] simple_bgr_def split: prod.splits)

lemma simple_pixels_ok:
  assumes "width + height \<le> 2 ^ 40"
  shows "simple_pixels width height = Inr (concat (simple_rows width height))"
  unfolding simple_pixels_def simple_rows_def
  by (subst for_res_rows [where f = "simple_bgr width height"])
     (auto intro: simple_pixel_ok assms)

lemma length_simple_row:
  assumes "y \<in> set (py_range height)"
  shows "length (concat (map (simple_bgr width height y) (py_range width))) = 3 * nat width"
  using assms by (subst length_concat_map_const [where k = 3]) (simp_all add: simple_bgr_bytes)

lemma simple_row_bytes:
  assumes "y \<in> set (py_range height)"
  shows "list_all is_byte_value (concat (map (simple_bgr width height y) (py_range width)))"
  using assms simple_bgr_bytes(2) [of _ width y height]
  by (auto simp: list_all_iff)

section \<open>Rows and padding\<close>

lemma padded_rows_ok:
  assumes "0 \<le> width"
    and "\<And>y. y \<in> set (py_range height) \<Longrightarrow> length (row y) = 3 * nat width"
    and "\<And>y. y \<in> set (py_range height) \<Longrightarrow> list_all is_byte_value (row y)"
  shows "padded_rows (concat (map row (py_range height))) width height
    = Inr (concat (map (\<lambda>y. pad_row width (row y)) (py_range height)))"
proof -
  let ?pixels = "concat (map row (py_range height))"
  have slice: "py_slice ?pixels (y * width * 3) (y * width * 3 + width * 3) = row y"
    if "y \<in> set (py_range height)" for y
  proof -
    from that obtain i where i: "y = int i" "i < nat height" by (auto simp: py_range_def)
    have "py_slice ?pixels (int i * (width * 3)) (int i * (width * 3) + width * 3)
        = drop (i * nat (width * 3)) (take (Suc i * nat (width * 3)) ?pixels)"
      using assms(1) by (intro py_slice_row) simp
    also have "nat (width * 3) = 3 * nat width" using assms(1) by (simp add: nat_mult_distrib)
    also have "drop (i * (3 * nat width)) (take (Suc i * (3 * nat width)) ?pixels)
        = row (py_range height ! i)"
      using i(2) by (intro row_of_concat) (simp_all add: assms(2))
    finally show ?thesis using i by (simp add: mult.assoc)
  qed
  have "padded_rows ?pixels width height
      = Inr (fold (\<lambda>y acc. acc @ pad_row width (row y)) (py_range height) [])"
    unfolding padded_rows_def Let_def
    by (intro for_res_pure)
       (simp add: slice py_bytes_ok assms(3) pad_row_def row_stride_def py_repeat_single)
  then show ?thesis by (simp add: fold_extend)
qed

text \<open>The loop on an arbitrary list: \<^verbatim>\<open>bytes()\<close> is the only call that can raise.\<close>

lemma padded_rows_iff:
  "padded_rows pixels width height =
     (if list_all (\<lambda>y. list_all is_byte_value
            (py_slice pixels (y * width * 3) (y * width * 3 + width * 3))) (py_range height)
      then Inr (concat (map (\<lambda>y. pad_row width
            (py_slice pixels (y * width * 3) (y * width * 3 + width * 3))) (py_range height)))
      else Inl ValueError)"
proof -
  let ?row = "\<lambda>y. py_slice pixels (y * width * 3) (y * width * 3 + width * 3)"
  have "padded_rows pixels width height
      = (if list_all (\<lambda>y. list_all is_byte_value (?row y)) (py_range height)
         then Inr (fold (\<lambda>y acc. acc @ pad_row width (?row y)) (py_range height) [])
         else Inl ValueError)"
    unfolding padded_rows_def Let_def
    by (intro for_res_guarded)
       (simp add: py_bytes_def pad_row_def row_stride_def py_repeat_single)
  then show ?thesis by (simp add: fold_extend)
qed

lemma rows_cover_prefix:
  assumes "0 \<le> width"
  shows "concat (map (\<lambda>y. py_slice pixels (y * width * 3) (y * width * 3 + width * 3))
           (py_range height))
    = take (nat (height * width * 3)) pixels"
proof -
  have "py_slice pixels (int i * width * 3) (int i * width * 3 + width * 3)
      = drop (i * nat (width * 3)) (take (i * nat (width * 3) + nat (width * 3)) pixels)" for i
    using py_slice_row [of "width * 3" pixels i] assms by (simp add: mult.assoc add.commute)
  then have "concat (map (\<lambda>y. py_slice pixels (y * width * 3) (y * width * 3 + width * 3))
           (py_range height)) = take (nat height * nat (width * 3)) pixels"
    by (simp add: py_range_def o_def concat_slices)
  also have "nat height * nat (width * 3) = nat (height * width * 3)"
  proof (cases "0 \<le> height")
    case True
    with assms show ?thesis by (simp add: nat_mult_distrib mult.assoc)
  next
    case False
    with assms have "height * width * 3 \<le> 0" by (simp add: mult_nonpos_nonneg)
    with False show ?thesis by simp
  qed
  finally show ?thesis .
qed

lemma padded_rows_simple:
  assumes "0 \<le> width"
  shows "padded_rows (concat (simple_rows width height)) width height
    = Inr (simple_pixel_data width height)"
  unfolding simple_rows_def simple_pixel_data_def
  by (subst padded_rows_ok) (simp_all add: assms length_simple_row simple_row_bytes comp_def)

section \<open>Headers\<close>

lemma bmp_info_header_ok:
  assumes "0 \<le> width" "width < 65536" "0 \<le> height" "height * 2 < 65536"
  shows "bmp_info_header width height = Inr (simple_header_bytes width height)"
  using assms by (simp add: bmp_info_header_def pack_unfold format_eval simple_header_bytes_def)

lemma bmp_info_header_raises:
  assumes "\<not> (0 \<le> width \<and> width < 65536 \<and> 0 \<le> height \<and> height * 2 < 65536)"
  shows "bmp_info_header width height = Inl StructError"
  using assms by (auto simp add: bmp_info_header_def pack_unfold format_eval)

lemma length_simple_header_bytes [simp]: "length (simple_header_bytes width height) = 40"
  by (simp add: simple_header_bytes_def)

lemma simple_ico_header_ok: "simple_ico_header = Inr (le_bytes 2 0 @ le_bytes 2 1 @ le_bytes 2 1)"
  by (simp add: simple_ico_header_def pack_unfold format_eval)

lemma ico_dir_ok:
  assumes "simple_dims width height" "0 \<le> data_size" "data_size < 2 ^ 32"
  shows "ico_dir width height data_size = Inr (simple_entry_bytes width height data_size)"
  using assms
  by (simp add: ico_dir_def pack_unfold format_eval simple_entry_bytes_def simple_dims_def)

lemma ico_dir_raises:
  assumes "\<not> simple_dims width height"
  shows "ico_dir width height data_size = Inl StructError"
  using assms by (auto simp add: ico_dir_def pack_unfold format_eval simple_dims_def)

section \<open>The image and the file\<close>

lemma length_pad_row:
  assumes "0 \<le> width" "length row = 3 * nat width"
  shows "length (pad_row width row) = nat (row_stride width 24)"
proof -
  from row_stride_bounds [of width 24] assms(1) have "width * 3 \<le> row_stride width 24" by simp
  with assms show ?thesis by (simp add: pad_row_def)
qed

lemma length_simple_pixel_data:
  assumes "0 \<le> width"
  shows "length (simple_pixel_data width height) = nat (row_stride width 24) * nat height"
  unfolding simple_pixel_data_def simple_rows_def map_map
  by (subst length_concat_map_const [where k = "nat (row_stride width 24)"])
     (simp_all add: length_pad_row length_simple_row assms)

lemma py_len_simple_image:
  assumes "0 \<le> width" "0 \<le> height"
  shows "py_len (simple_image width height) = simple_image_size width height"
proof -
  from assms have "0 \<le> width * height div 8" by (simp add: pos_imp_zdiv_nonneg_iff)
  moreover have "0 \<le> row_stride width 24" using row_stride_bounds [of width 24] assms by simp
  ultimately show ?thesis
    using assms
    by (simp add: py_len_def simple_image_def simple_image_size_def length_simple_pixel_data
        nat_mult_distrib mult.commute)
qed

lemma simple_image_size_bounds:
  assumes "simple_dims width height"
  shows "0 \<le> simple_image_size width height" and "simple_image_size width height < 2 ^ 32"
proof -
  from assms have d: "0 \<le> width" "width \<le> 255" "0 \<le> height" "height \<le> 255"
    by (simp_all add: simple_dims_def)
  from row_stride_bounds [of width 24] d
  have s: "0 \<le> row_stride width 24" "row_stride width 24 \<le> 768" by simp_all
  have a: "0 \<le> height * row_stride width 24" "height * row_stride width 24 \<le> 255 * 768"
    using d s mult_mono [of height 255 "row_stride width 24" 768] by simp_all
  have "0 \<le> width * height" "width * height \<le> 255 * 255"
    using d mult_mono [of width 255 height 255] by simp_all
  then have b: "0 \<le> width * height div 8" "width * height div 8 < 65026"
    using int_div_bounds [of 8 0 "width * height" 65026] by simp_all
  from a b show "0 \<le> simple_image_size width height" "simple_image_size width height < 2 ^ 32"
    by (simp_all add: simple_image_size_def)
qed

lemma simple_and_mask_replicate:
  "simple_and_mask width height = replicate (nat (width * height div 8)) 0"
  by (simp add: simple_and_mask_def py_repeat_single)

lemma simple_ico_of_ok:
  assumes "simple_dims width height"
  shows "simple_ico_of width height = Inr (simple_ico_bytes width height)"
proof -
  from assms have d: "0 \<le> width" "width < 65536" "0 \<le> height" "height * 2 < 65536"
    "width + height \<le> 2 ^ 40"
    by (simp_all add: simple_dims_def)
  have "py_len (simple_header_bytes width height @ simple_pixel_data width height
      @ replicate (nat (width * height div 8)) 0) = simple_image_size width height"
    using py_len_simple_image [OF d(1,3)] by (simp only: simple_image_def)
  then show ?thesis
    using simple_image_size_bounds [OF assms]
    by (simp add: simple_ico_of_def simple_ico_header_ok bmp_info_header_ok d
        simple_pixels_ok [OF d(5)] padded_rows_simple simple_and_mask_replicate ico_dir_ok assms simple_ico_bytes_def
        simple_image_def del: py_len_append)
qed

lemma simple_ico_of_raises:
  assumes "\<not> simple_dims width height"
  shows "simple_ico_of width height = Inl StructError"
proof (cases "0 \<le> width \<and> width < 65536 \<and> 0 \<le> height \<and> height * 2 < 65536")
  case True
  then have "width + height \<le> 2 ^ 40" by simp
  with True show ?thesis
    by (simp add: simple_ico_of_def simple_ico_header_ok bmp_info_header_ok simple_pixels_ok
        padded_rows_simple ico_dir_raises [OF assms])
next
  case False
  then show ?thesis
    by (simp add: simple_ico_of_def simple_ico_header_ok bmp_info_header_raises)
qed

section \<open>Reading the file back\<close>

lemma length_simple_entry_bytes [simp]: "length (simple_entry_bytes width height n) = 16"
  by (simp add: simple_entry_bytes_def)

lemma read_entry_simple:
  assumes "simple_dims width height"
  shows "read_entry (simple_ico_bytes width height) 0
    = Inr [width, height, 0, 0, 1, 32, simple_image_size width height, 22]"
proof -
  have "read_entry ((le_bytes 2 0 @ le_bytes 2 1 @ le_bytes 2 1)
      @ simple_entry_bytes width height (simple_image_size width height)
      @ simple_image width height) 0
    = Inr [width, height, 0, 0, 1, 32, simple_image_size width height, 22]"
    using ico_dir_ok [OF assms simple_image_size_bounds [OF assms]]
    by (intro read_entry_pack) (simp_all add: ico_dir_def)
  then show ?thesis by (simp add: simple_ico_bytes_def)
qed

lemma read_image_simple:
  assumes "simple_dims width height"
  shows "read_image (simple_ico_bytes width height) 0 = Inr (simple_image width height)"
proof -
  from assms have d: "0 \<le> width" "0 \<le> height" by (simp_all add: simple_dims_def)
  show ?thesis
  proof (rule read_image_slice [OF read_entry_simple [OF assms]])
    show "simple_ico_bytes width height
        = ((le_bytes 2 0 @ le_bytes 2 1 @ le_bytes 2 1)
            @ simple_entry_bytes width height (simple_image_size width height))
          @ simple_image width height @ []"
      by (simp add: simple_ico_bytes_def)
    show "entry_offset [width, height, 0, 0, 1, 32, simple_image_size width height, 22]
        = int (length ((le_bytes 2 0 @ le_bytes 2 1 @ le_bytes 2 1)
            @ simple_entry_bytes width height (simple_image_size width height)))"
      by (simp add: entry_offset_def)
    show "entry_size [width, height, 0, 0, 1, 32, simple_image_size width height, 22]
        = int (length (simple_image width height))"
      using py_len_simple_image [OF d] by (simp add: entry_size_def py_len_def)
  qed
qed

text \<open>The header as a reader of the standard layout sees it.\<close>

lemma simple_header_standard:
  assumes "0 \<le> width" "width < 65536" "0 \<le> height" "height * 2 < 65536"
  shows "pack ''<IIIHHIIIIII'' [40, width + 65536 * (height * 2), 1, 24, 0, 0, 0, 0, 0, 0, 0]
    = Inr (simple_header_bytes width height)"
proof -
  define W where "W = width + 65536 * (height * 2)"
  have w: "le_bytes 4 W = le_bytes 2 width @ le_bytes 2 (height * 2)"
    unfolding W_def using le_bytes_append [of width 2 2 "height * 2"] assms by simp
  have b: "le_bytes 4 24 = le_bytes 2 24 @ le_bytes 2 0"
    using le_bytes_append [of 24 2 2 0] by simp
  have "0 \<le> W" "W < 2 ^ 32" using assms by (simp_all add: W_def)
  then have "pack ''<IIIHHIIIIII'' [40, W, 1, 24, 0, 0, 0, 0, 0, 0, 0]
      = Inr (simple_header_bytes width height)"
    by (simp add: pack_unfold format_eval simple_header_bytes_def w b)
  then show ?thesis by (simp only: W_def)
qed

lemma read_bmp_header_simple:
  assumes "0 \<le> width" "width < 65536" "0 \<le> height" "height * 2 < 65536"
  shows "read_bmp_header (simple_image width height)
    = Inr [40, width + 65536 * (height * 2), 1, 24, 0, 0, 0, 0, 0, 0, 0]"
  unfolding simple_image_def by (intro read_bmp_header_pack simple_header_standard assms)

lemma mask_size_multiple_of_32:
  assumes "width mod 32 = 0"
  shows "width * height div 8 = mask_stride width * height"
proof -
  from assms obtain k where k: "width = 32 * k" by (auto simp: mod_eq_0_iff_dvd)
  then show ?thesis by (simp add: mask_stride_def)
qed

section \<open>Properties\<close>

text \<open>
  C6. The script as shipped raises nothing and returns the 6-byte header, one
  directory entry, the 40-byte bitmap header, 32 rows of 96 bytes and 128 mask
  bytes: 3262 bytes, whose header reads as reserved 0, type 1, count 1.
\<close>

theorem create_simple_ico_bytes:
  "create_simple_ico = Inr (simple_ico_bytes 32 32)
    \<and> py_len (simple_ico_bytes 32 32) = 3262
    \<and> read_header (simple_ico_bytes 32 32) = Inr [0, 1, 1]"
proof -
  have d: "simple_dims 32 32" by (simp add: simple_dims_def)
  have "py_len (simple_ico_bytes 32 32) = 22 + py_len (simple_image 32 32)"
    by (simp add: simple_ico_bytes_def py_len_def)
  moreover have "read_header ((le_bytes 2 0 @ le_bytes 2 1 @ le_bytes 2 1)
      @ simple_entry_bytes 32 32 (simple_image_size 32 32) @ simple_image 32 32) = Inr [0, 1, 1]"
    using simple_ico_header_ok by (intro read_header_pack) (simp add: simple_ico_header_def)
  ultimately show ?thesis
    by (simp add: create_simple_ico_def simple_ico_of_ok [OF d] py_len_simple_image
        simple_image_size_def row_stride_def simple_ico_bytes_def)
qed

text \<open>
  C23. The floating-point colour computation equals the integer formula: inside
  the loops, for every width and height up to \<open>2^40\<close> in sum, the three channels
  the script computes with \<^verbatim>\<open>int(c + a / d)\<close> are \<open>c + a div d\<close>, and they are
  bytes (red 102..117, green 75..126, blue 162..234).
\<close>

theorem simple_gradient_integer:
  assumes "0 \<le> x" and "x < width" and "0 \<le> y" and "y < height" and "width + height \<le> 2 ^ 40"
  shows "simple_gradient width height y x
      = Inr (102 + 16 * x div width, 126 + (- 51) * y div height,
             234 + (- 72) * (x + y) div (width + height))
    \<and> 102 \<le> 102 + 16 * x div width \<and> 102 + 16 * x div width \<le> 117
    \<and> 75 \<le> 126 + (- 51) * y div height \<and> 126 + (- 51) * y div height \<le> 126
    \<and> 162 \<le> 234 + (- 72) * (x + y) div (width + height)
    \<and> 234 + (- 72) * (x + y) div (width + height) \<le> 234"
  using simple_gradient_int [OF assms] int_gradient_range [OF assms(1-4)]
  by (simp add: int_gradient_def)

theorem simple_gradient_integer_witness:
  "simple_gradient 32 32 31 31 = Inr (117, 76, 164)"
  using simple_gradient_integer [of 31 32 31 32] by simp

text \<open>
  C27. \<open>simple_ico_of\<close> raises exactly when a dimension does not fit one byte
  of the directory entry (negative or above 255), and then the exception is
  \<^verbatim>\<open>struct.error\<close>: no division by zero and no \<^verbatim>\<open>ValueError\<close> from \<^verbatim>\<open>bytes()\<close>
  can leave it.
\<close>

theorem simple_ico_of_raises_iff:
  "simple_ico_of width height = Inl e \<longleftrightarrow>
     e = StructError \<and> \<not> (0 \<le> width \<and> width < 256 \<and> 0 \<le> height \<and> height < 256)"
  using simple_ico_of_ok [of width height] simple_ico_of_raises [of width height]
  by (cases "simple_dims width height") (auto simp: simple_dims_def)

theorem simple_ico_of_raises_iff_witness:
  "simple_ico_of 256 32 = Inl StructError \<and> simple_ico_of 32 (- 1) = Inl StructError
    \<and> simple_ico_of 0 0 \<noteq> Inl StructError \<and> create_simple_ico \<noteq> Inl StructError"
  using simple_ico_of_raises_iff [of 256 32 StructError]
    simple_ico_of_raises_iff [of 32 "- 1" StructError]
    simple_ico_of_raises_iff [of 0 0 StructError]
    simple_ico_of_raises_iff [of 32 32 StructError]
  by (simp add: create_simple_ico_def)

text \<open>
  C33. The directory entry of the file points at the image: it reads as width,
  height, 0, 0, 1 plane, 32 bits, the size \<open>40 + height * stride + width *
  height div 8\<close> and offset 22, and the slice of the file it names is the bitmap
  header, the padded rows and the mask.
\<close>

theorem simple_entry_reads_image:
  assumes "0 \<le> width" and "width < 256" and "0 \<le> height" and "height < 256"
  shows "\<exists>file. simple_ico_of width height = Inr file
    \<and> read_entry file 0 = Inr [width, height, 0, 0, 1, 32,
         40 + height * row_stride width 24 + width * height div 8, 22]
    \<and> read_image file 0 = Inr (simple_header_bytes width height
         @ simple_pixel_data width height @ replicate (nat (width * height div 8)) 0)"
proof -
  from assms have d: "simple_dims width height" by (simp add: simple_dims_def)
  show ?thesis
    using read_entry_simple [OF d] read_image_simple [OF d]
    by (simp add: simple_ico_of_ok [OF d] simple_image_size_def simple_image_def)
qed

theorem simple_entry_reads_image_witness:
  "\<exists>file. create_simple_ico = Inr file
    \<and> read_entry file 0 = Inr [32, 32, 0, 0, 1, 32, 3240, 22]
    \<and> read_image file 0 = Inr (simple_header_bytes 32 32
         @ simple_pixel_data 32 32 @ replicate 128 0)"
  using simple_entry_reads_image [of 32 32] by (simp add: create_simple_ico_def row_stride_def)

text \<open>
  C8. The bitmap header is packed with the format \<^verbatim>\<open><IHHIIIIIIII\<close>: width and
  height take two bytes each, planes and bit count four. It is 40 bytes long,
  but a reader of the standard \<^verbatim>\<open>BITMAPINFOHEADER\<close> layout (four-byte width and
  height, two-byte planes and bit count) finds the width \<open>width + 131072 *
  height\<close>, the height 1, 24 planes and a bit count of 0.
\<close>

theorem simple_header_misread:
  assumes "0 \<le> width" and "width < 256" and "0 \<le> height" and "height < 256"
  shows "\<exists>file img. simple_ico_of width height = Inr file \<and> read_image file 0 = Inr img
    \<and> read_bmp_header img = Inr [40, width + 131072 * height, 1, 24, 0, 0, 0, 0, 0, 0, 0]
    \<and> unpack ''<IHHIIIIIIII'' (py_slice img 0 40)
        = Inr [40, width, height * 2, 1, 24, 0, 0, 0, 0, 0, 0]"
proof -
  from assms have d: "simple_dims width height"
    and b: "0 \<le> width" "width < 65536" "0 \<le> height" "height * 2 < 65536"
    by (simp_all add: simple_dims_def)
  have "unpack ''<IHHIIIIIIII'' (py_slice (simple_image width height) 0 40)
      = Inr [40, width, height * 2, 1, 24, 0, 0, 0, 0, 0, 0]"
    using bmp_info_header_ok [OF b]
    by (simp add: simple_image_def py_slice_prefix unpack_pack bmp_info_header_def)
  then show ?thesis
    using read_bmp_header_simple [OF b]
    by (simp add: simple_ico_of_ok [OF d] read_image_simple [OF d])
qed

theorem simple_header_misread_witness:
  "\<exists>file img. create_simple_ico = Inr file \<and> read_image file 0 = Inr img
    \<and> read_bmp_header img = Inr [40, 4194336, 1, 24, 0, 0, 0, 0, 0, 0, 0]
    \<and> unpack ''<IHHIIIIIIII'' (py_slice img 0 40) = Inr [40, 32, 64, 1, 24, 0, 0, 0, 0, 0, 0]"
  using simple_header_misread [of 32 32] by (simp add: create_simple_ico_def)

text \<open>
  The padding loop: given rows of \<open>3 * width\<close> byte values each, it
  returns every row followed by zero bytes up to the stride
  \<open>((width * 24 + 31) div 32) * 4\<close>, a multiple of 4 that is at least the row.
\<close>

theorem padded_rows_layout:
  assumes "0 \<le> width"
    and "\<forall>y \<in> set (py_range height). length (row y) = 3 * nat width
           \<and> list_all is_byte_value (row y)"
  shows "padded_rows (concat (map row (py_range height))) width height
      = Inr (concat (map (\<lambda>y. map word_of_int (row y)
               @ replicate (nat (row_stride width 24 - width * 3)) 0) (py_range height)))
    \<and> 3 * width \<le> row_stride width 24 \<and> row_stride width 24 mod 4 = 0
    \<and> row_stride width 24 < 3 * width + 4"
proof -
  from assms have "padded_rows (concat (map row (py_range height))) width height
      = Inr (concat (map (\<lambda>y. pad_row width (row y)) (py_range height)))"
    by (intro padded_rows_ok) simp_all
  with assms(1) row_stride_bounds [of width 24] show ?thesis
    by (simp add: row_stride_multiple_of_4 pad_row_def)
qed

theorem padded_rows_layout_witness:
  "padded_rows [1, 2, 3, 4, 5, 6] 1 2 = Inr [1, 2, 3, 0, 4, 5, 6, 0]"
  using padded_rows_layout [of 1 2 "\<lambda>y. if y = 0 then [1, 2, 3] else [4, 5, 6]"]
  by (simp add: py_eval row_stride_def)

text \<open>
  The mask is \<open>width * height div 8\<close> zero bytes. The format asks for rows
  of mask bits padded to 32 bits, \<open>((width + 31) div 32) * 4 * height\<close> bytes;
  the two agree when the width is a multiple of 32, as the shipped 32 is, and
  the script's mask is too short otherwise (32 bytes instead of 64 at 16 by 16).
\<close>

theorem simple_and_mask_size:
  assumes "0 \<le> width" and "0 \<le> height"
  shows "py_len (simple_and_mask width height) = width * height div 8
    \<and> width * height div 8 \<le> mask_stride width * height
    \<and> (width mod 32 = 0 \<longrightarrow> width * height div 8 = mask_stride width * height)"
proof -
  from assms have n: "0 \<le> width * height div 8" by (simp add: pos_imp_zdiv_nonneg_iff)
  have "width \<le> 8 * mask_stride width" unfolding mask_stride_def by presburger
  with assms(2) have "width * height \<le> (8 * mask_stride width) * height"
    by (intro mult_right_mono)
  then have "width * height div 8 \<le> (8 * mask_stride width) * height div 8"
    by (intro zdiv_mono1) simp_all
  then have "width * height div 8 \<le> mask_stride width * height" by (simp add: mult.assoc)
  with n show ?thesis
    by (simp add: simple_and_mask_def py_len_def mask_size_multiple_of_32)
qed

theorem simple_and_mask_size_witness:
  "py_len (simple_and_mask 32 32) = 128 \<and> mask_stride 32 * 32 = 128
    \<and> py_len (simple_and_mask 16 16) = 32 \<and> mask_stride 16 * 16 = 64"
  using simple_and_mask_size [of 32 32] simple_and_mask_size [of 16 16]
  by (simp add: mask_stride_def)

text \<open>
  C28. On an arbitrary list of pixel values the padding loop raises
  \<^verbatim>\<open>ValueError\<close> exactly when one of the first \<open>height * width * 3\<close> values is
  not a byte; values behind the last row are never looked at, and a list
  that is too short gives short rows, not an exception.
\<close>

theorem padded_rows_raises_iff:
  assumes "0 \<le> width"
  shows "(padded_rows pixels width height = Inl ValueError
      \<longleftrightarrow> \<not> list_all is_byte_value (take (nat (height * width * 3)) pixels))
    \<and> ((\<exists>bs. padded_rows pixels width height = Inr bs)
      \<longleftrightarrow> list_all is_byte_value (take (nat (height * width * 3)) pixels))"
proof -
  have "list_all (\<lambda>y. list_all is_byte_value
            (py_slice pixels (y * width * 3) (y * width * 3 + width * 3))) (py_range height)
      \<longleftrightarrow> list_all is_byte_value (take (nat (height * width * 3)) pixels)"
    unfolding rows_cover_prefix [OF assms, symmetric] by (simp add: list_all_iff)
  then show ?thesis by (simp add: padded_rows_iff)
qed

theorem padded_rows_raises_iff_witness:
  "padded_rows [1, 2, 256, 4, 5, 6] 1 2 = Inl ValueError
    \<and> padded_rows [1, 2, 3, 4, 5, 6, 256] 1 2 = Inr [1, 2, 3, 0, 4, 5, 6, 0]
    \<and> padded_rows [1, 2, 3, 4] 1 2 = Inr [1, 2, 3, 0, 4, 0]"
  using padded_rows_raises_iff [of 1 "[1, 2, 256, 4, 5, 6]" 2]
  by (simp add: padded_rows_iff py_eval py_slice_def slice_index_def pad_row_def row_stride_def
      is_byte_value_def)

text \<open>
  C35. At 16 by 16 pixels the mask of \<^verbatim>\<open>generate_icon.py\<close> has 32 bytes where
  the format needs 64: a reader finds the mask bits of the lower eight lines
  and runs off the end of the image for the upper eight.
\<close>

theorem simple_mask_too_short:
  assumes "0 \<le> x" and "x < 16" and "0 \<le> y" and "y < 16"
  shows "\<exists>file img. simple_ico_of 16 16 = Inr file \<and> read_image file 0 = Inr img
    \<and> read_mask_bit img 16 16 24 y x = (if y < 8 then None else Some False)"
proof -
  have d: "simple_dims 16 16" by (simp add: simple_dims_def)
  have len: "length (simple_header_bytes 16 16 @ simple_pixel_data 16 16) = 808"
    by (simp add: length_simple_pixel_data row_stride_def)
  have x: "0 \<le> x div 8" "x div 8 < 2" using assms(1,2) by simp_all
  have "read_mask_bit (simple_image 16 16) 16 16 24 y x = (if y < 8 then None else Some False)"
  proof (cases "y < 8")
    case True
    with x assms(3) have "int (length (simple_image 16 16))
        \<le> mask_offset 16 16 24 + (16 - 1 - y) * mask_stride 16 + x div 8"
      using len by (simp add: simple_image_def mask_offset_def row_stride_def mask_stride_def)
    with True show ?thesis by (simp add: read_mask_bit_outside)
  next
    case False
    have "read_mask_bit (simple_image 16 16) 16 16 24 y x = Some False"
    proof (rule read_mask_bit_zeros)
      show "simple_image 16 16 = (simple_header_bytes 16 16 @ simple_pixel_data 16 16)
          @ replicate 32 0"
        by (simp add: simple_image_def)
      show "int (length (simple_header_bytes 16 16 @ simple_pixel_data 16 16))
          = mask_offset 16 16 24"
        by (simp only: len) (simp add: mask_offset_def row_stride_def)
      show "0 \<le> (16 - 1 - y) * mask_stride 16 + x div 8"
        using assms(4) x by (simp add: mask_stride_def)
      show "(16 - 1 - y) * mask_stride 16 + x div 8 < int 32"
        using False x by (simp add: mask_stride_def)
    qed
    with False show ?thesis by simp
  qed
  then show ?thesis by (simp add: simple_ico_of_ok [OF d] read_image_simple [OF d])
qed

theorem simple_mask_too_short_witness:
  "\<exists>file img. simple_ico_of 16 16 = Inr file \<and> read_image file 0 = Inr img
    \<and> read_mask_bit img 16 16 24 0 0 = None \<and> read_mask_bit img 16 16 24 15 0 = Some False"
  using simple_mask_too_short [of 0 0] simple_mask_too_short [of 0 15] by auto

end
