(* ===== verification/Icon_Refinement.thy ===== *)
theory Icon_Refinement
  imports Multi_Size_Pixels Simple_Icon Ico_Encoder
begin

text \<open>
  The two scripts against the encoder of \<open>Ico_Encoder\<close>. The picture a
  script draws is taken out of its pixel loop as an image (\<open>drawn_image\<close>,
  \<open>simple_drawn_image\<close>: the pixel of line \<open>y\<close> and column \<open>x\<close> in the order
  red, green, blue, lines from the top). The lemmas say which image the
  bytes of a script encode.
\<close>

section \<open>The pictures as images\<close>

definition drawn_image :: "int \<Rightarrow> int \<Rightarrow> ico_image" where
  "drawn_image width height =
     \<lparr>img_width = width, img_height = height, img_channels = 4,
      img_pixels = concat (map (\<lambda>y. map (\<lambda>x. bgr_pixel (map word_of_int (bgra width height y x)))
                                       (py_range width))
                             (py_range height))\<rparr>"

definition simple_drawn_image :: "int \<Rightarrow> int \<Rightarrow> ico_image" where
  "simple_drawn_image width height =
     \<lparr>img_width = width, img_height = height, img_channels = 3,
      img_pixels = concat (map (\<lambda>y. map (\<lambda>x. bgr_pixel (map word_of_int
                                                   (simple_bgr width height y x)))
                                       (py_range width))
                             (py_range height))\<rparr>"

section \<open>Images built from rows\<close>

lemma valid_image_rows:
  assumes "0 < img_width im" and "0 < img_height im" and "img_channels im \<in> {3, 4}"
    and "img_pixels im = concat (map (\<lambda>y. map (f y) (py_range (img_width im)))
                                   (py_range (img_height im)))"
    and "\<And>y x. y \<in> set (py_range (img_height im)) \<Longrightarrow> x \<in> set (py_range (img_width im))
          \<Longrightarrow> length (f y x) = nat (img_channels im)"
  shows "valid_image im"
    and "image_rows im = map (\<lambda>y. map (f y) (py_range (img_width im))) (py_range (img_height im))"
proof -
  let ?rows = "map (\<lambda>y. map (f y) (py_range (img_width im))) (py_range (img_height im))"
  have "length (concat ?rows) = nat (img_width im) * length (py_range (img_height im))"
    by (intro length_concat_map_const) simp
  then have "py_len (img_pixels im) = img_width im * img_height im"
    using assms(1,2) by (simp add: assms(4) py_len_def)
  moreover have "py_len px = img_channels im" if "px \<in> set (img_pixels im)" for px
    using that assms(3,5) by (auto simp: assms(4) py_len_def)
  ultimately show "valid_image im"
    using assms(1-3) by (auto simp: valid_image_def list_all_iff)
  show "image_rows im = ?rows"
    using assms(1,4) by (intro image_rows_concat) auto
qed

lemma encode_pixels_flip:
  assumes "valid_image im"
  shows "encode_pixels (flip_image im) = concat (map (encode_row im) (image_rows im))"
proof -
  have "encode_row (flip_image im) = encode_row im"
    by (simp add: encode_row_def flip_image_def fun_eq_iff)
  then show ?thesis by (simp add: encode_pixels_def image_rows_flip [OF assms])
qed

lemma encode_image_flip:
  assumes "valid_image im"
  shows "encode_image (flip_image im)
    = encode_header im @ concat (map (encode_row im) (image_rows im)) @ encode_mask im"
  by (simp add: encode_image_def encode_pixels_flip [OF assms])
    (simp add: encode_header_def encode_mask_def flip_image_def)

section \<open>The multi-size script\<close>

lemma drawn_image_rows:
  assumes "0 < width" and "0 < height"
  shows "valid_image (drawn_image width height)"
    and "image_rows (drawn_image width height)
      = map (\<lambda>y. map (\<lambda>x. bgr_pixel (map word_of_int (bgra width height y x))) (py_range width))
          (py_range height)"
proof -
  let ?im = "drawn_image width height"
  have px: "length (bgr_pixel (map word_of_int (bgra width height y x) :: bytes))
      = nat (img_channels ?im)"
    if "y \<in> set (py_range (img_height ?im))" "x \<in> set (py_range (img_width ?im))" for y x
    using that by (simp add: drawn_image_def bgra_bytes)
  have im: "0 < img_width ?im" "0 < img_height ?im" "img_channels ?im \<in> {3, 4}"
    "img_pixels ?im = concat (map (\<lambda>y. map (\<lambda>x. bgr_pixel (map word_of_int
        (bgra width height y x))) (py_range (img_width ?im))) (py_range (img_height ?im)))"
    using assms by (simp_all add: drawn_image_def)
  from valid_image_rows [OF im px] show "valid_image ?im"
    and "image_rows ?im
      = map (\<lambda>y. map (\<lambda>x. bgr_pixel (map word_of_int (bgra width height y x)))
            (py_range width)) (py_range height)"
    by (simp_all add: drawn_image_def)
qed

lemma encode_row_drawn:
  assumes "0 < width" and "y \<in> set (py_range height)"
  shows "encode_row (drawn_image width height)
      (map (\<lambda>x. bgr_pixel (map word_of_int (bgra width height y x))) (py_range width))
    = map word_of_int (concat (map (bgra width height y) (py_range width)))"
proof -
  let ?data = "map word_of_int (concat (map (bgra width height y) (py_range width))) :: bytes"
  have "concat (map (\<lambda>x. map word_of_int (bgra width height y x)) (py_range width)) = ?data"
    by (simp add: map_concat o_def)
  moreover have "py_len ?data = 4 * width"
    using assms by (simp add: py_len_def length_pixel_row)
  moreover have "padded_row_size width 4 = 4 * width" by (simp add: padded_row_size_def)
  ultimately show ?thesis
    by (simp add: encode_row_def drawn_image_def Let_def o_def)
qed

text \<open>
  The bytes \<open>create_icon_data\<close> returns are the encoding of the picture
  turned upside down.
\<close>

lemma image_bytes_encode:
  assumes "0 < width" and "0 < height"
  shows "image_bytes width height = encode_image (flip_image (drawn_image width height))"
proof -
  have "map (encode_row (drawn_image width height)) (image_rows (drawn_image width height))
      = map (\<lambda>y. map word_of_int (concat (map (bgra width height y) (py_range width))))
          (py_range height)"
    unfolding drawn_image_rows(2) [OF assms] map_map o_def
    by (intro map_cong refl encode_row_drawn [OF assms(1)])
  then have "concat (map (encode_row (drawn_image width height))
          (image_rows (drawn_image width height))) = pixel_bytes width height"
    by (simp add: pixel_bytes_def pixel_rows_def map_concat o_def)
  then show ?thesis
    by (simp add: encode_image_flip [OF drawn_image_rows(1) [OF assms]] image_bytes_def)
      (simp add: encode_header_def encode_mask_def drawn_image_def header_bytes_def
        mask_size_def py_repeat_single)
qed

lemma encode_entry_drawn:
  assumes "0 < sz"
  shows "encode_entry (flip_image (drawn_image sz sz))
      (py_len (encode_image (flip_image (drawn_image sz sz)))) off
    = entry_bytes (sz, image_bytes sz sz) off"
proof -
  have "(sz \<le> 255) = (sz < 256)" by auto
  then show ?thesis
    by (simp add: encode_entry_def entry_bytes_def dir_dim_def flip_image_def drawn_image_def
        image_bytes_encode [OF assms assms, unfolded flip_image_def drawn_image_def])
qed

lemma encode_directory_drawn:
  assumes "list_all (\<lambda>sz. 0 < sz) sizes"
  shows "encode_directory off (map (\<lambda>sz. flip_image (drawn_image sz sz)) sizes)
    = directory_bytes off (images_of sizes)"
  using assms
  by (induction sizes arbitrary: off) (simp_all add: encode_entry_drawn image_bytes_encode)

lemma encode_drawn:
  assumes "sizes \<noteq> []" and "list_all (\<lambda>sz. 0 < sz) sizes"
  shows "encode (map (\<lambda>sz. flip_image (drawn_image sz sz)) sizes) = Inr (ico_bytes sizes)"
proof -
  have "valid_image (flip_image (drawn_image sz sz))" if "sz \<in> set sizes" for sz
    using that assms(2) by (intro valid_flip_image drawn_image_rows(1)) (simp_all add: list_all_iff)
  moreover have "map (encode_image \<circ> (\<lambda>sz. flip_image (drawn_image sz sz))) sizes
      = map snd (images_of sizes)"
    using assms(2) by (simp add: images_of_def o_def image_bytes_encode list_all_iff)
  ultimately show ?thesis
    using assms
    by (simp add: encode_def list_all_iff ico_bytes_def encode_directory_drawn py_len_def)
qed

lemma decode_image_bytes:
  assumes "valid_dims sz sz" and "0 < sz"
  shows "decode_image (image_bytes sz sz) = Inr (flip_image (drawn_image sz sz))"
proof -
  have "valid_image (flip_image (drawn_image sz sz))"
    using assms(2) by (intro valid_flip_image drawn_image_rows(1))
  moreover have "img_width (flip_image (drawn_image sz sz)) = sz"
    "img_height (flip_image (drawn_image sz sz)) = sz"
    by (simp_all add: flip_image_def drawn_image_def)
  ultimately show ?thesis
    using assms(1) unfolding image_bytes_encode [OF assms(2,2)]
    by (intro decode_encode_image) (simp_all add: valid_dims_def)
qed

text \<open>The picture is not its own mirror image: its first and last lines differ.\<close>

lemma drawn_image_corner:
  assumes "sz \<in> {16, 32, 48}" and "y \<in> {0, sz - 1}"
  shows "image_rows (drawn_image sz sz) ! nat y ! 0
    = bgr_pixel (map word_of_int (int_pixel sz sz y 0))"
proof -
  from assms have b: "0 \<le> y" "y < sz" "0 < sz" "nat y < nat sz" by auto
  then have "bgra sz sz y 0 = int_pixel sz sz y 0"
    using icon_pixel_shipped [of 0 sz y] assms(1) by (simp add: bgra_def)
  then show ?thesis using b by (simp add: drawn_image_rows(2))
qed

lemma drawn_image_not_flipped:
  assumes "sz \<in> {16, 32, 48}"
  shows "flip_image (drawn_image sz sz) \<noteq> drawn_image sz sz"
proof
  let ?R = "image_rows (drawn_image sz sz)"
  assume "flip_image (drawn_image sz sz) = drawn_image sz sz"
  then have "image_rows (flip_image (drawn_image sz sz)) = ?R" by simp
  then have "rev ?R = ?R"
    using assms by (subst (asm) image_rows_flip) (auto intro: drawn_image_rows(1))
  then have "?R ! 0 = rev ?R ! 0" by simp
  also have "\<dots> = ?R ! nat (sz - 1)"
    using assms by (subst rev_nth) (auto simp: drawn_image_def)
  finally have "?R ! nat 0 ! 0 = ?R ! nat (sz - 1) ! 0" by simp
  then have "bgr_pixel (map word_of_int (int_pixel sz sz 0 0) :: bytes)
      = bgr_pixel (map word_of_int (int_pixel sz sz (sz - 1) 0))"
    using assms by (simp only: drawn_image_corner insertI1 insertI2)
  with assms show False
    by (auto simp: int_pixel_def int_clipboard_def int_box_def int_rgb_def bgr_pixel_def)
qed

lemma encode_image_drawn_differs:
  assumes "sz \<in> {16, 32, 48}"
  shows "encode_image (drawn_image sz sz) \<noteq> image_bytes sz sz"
    and "length (encode_image (drawn_image sz sz)) = length (image_bytes sz sz)"
proof -
  let ?d = "drawn_image sz sz"
  from assms have sz: "0 < sz" "sz < 2 ^ 32" "sz * 2 < 2 ^ 32" by auto
  have v: "valid_image ?d" "valid_image (flip_image ?d)"
    using sz(1) by (auto intro: valid_flip_image drawn_image_rows(1))
  have f: "img_width (flip_image ?d) = sz" "img_height (flip_image ?d) = sz"
    "img_width ?d = sz" "img_height ?d = sz"
    "img_channels (flip_image ?d) = img_channels ?d"
    by (simp_all add: flip_image_def drawn_image_def)
  show "encode_image ?d \<noteq> image_bytes sz sz"
    unfolding image_bytes_encode [OF sz(1) sz(1)]
    using encode_image_inj [OF v(1) _ _ v(2), unfolded f, OF sz(2,3) sz(2,3)]
      drawn_image_not_flipped [OF assms]
    by auto
  have "py_len (encode_image ?d) = py_len (encode_image (flip_image ?d))"
    by (simp only: length_encode_image v f)
  then show "length (encode_image ?d) = length (image_bytes sz sz)"
    by (simp add: image_bytes_encode [OF sz(1) sz(1)] py_len_def)
qed

section \<open>The single-image script\<close>

lemma simple_drawn_image_rows:
  assumes "0 < width" and "0 < height"
  shows "valid_image (simple_drawn_image width height)"
    and "image_rows (simple_drawn_image width height)
      = map (\<lambda>y. map (\<lambda>x. bgr_pixel (map word_of_int (simple_bgr width height y x)))
            (py_range width)) (py_range height)"
proof -
  let ?im = "simple_drawn_image width height"
  have px: "length (bgr_pixel (map word_of_int (simple_bgr width height y x) :: bytes))
      = nat (img_channels ?im)"
    if "y \<in> set (py_range (img_height ?im))" "x \<in> set (py_range (img_width ?im))" for y x
    using that by (simp add: simple_drawn_image_def simple_bgr_bytes)
  have im: "0 < img_width ?im" "0 < img_height ?im" "img_channels ?im \<in> {3, 4}"
    "img_pixels ?im = concat (map (\<lambda>y. map (\<lambda>x. bgr_pixel (map word_of_int
        (simple_bgr width height y x))) (py_range (img_width ?im))) (py_range (img_height ?im)))"
    using assms by (simp_all add: simple_drawn_image_def)
  from valid_image_rows [OF im px] show "valid_image ?im"
    and "image_rows ?im
      = map (\<lambda>y. map (\<lambda>x. bgr_pixel (map word_of_int (simple_bgr width height y x)))
            (py_range width)) (py_range height)"
    by (simp_all add: simple_drawn_image_def)
qed

lemma encode_row_simple_drawn:
  assumes "0 < width" and "y \<in> set (py_range height)"
  shows "encode_row (simple_drawn_image width height)
      (map (\<lambda>x. bgr_pixel (map word_of_int (simple_bgr width height y x))) (py_range width))
    = pad_row width (concat (map (simple_bgr width height y) (py_range width)))"
proof -
  let ?data = "map word_of_int (concat (map (simple_bgr width height y) (py_range width)))
    :: bytes"
  have "concat (map (\<lambda>x. map word_of_int (simple_bgr width height y x)) (py_range width))
      = ?data"
    by (simp add: map_concat o_def)
  moreover have "py_len ?data = width * 3"
    using assms by (simp add: py_len_def length_simple_row)
  ultimately show ?thesis
    by (simp add: encode_row_def simple_drawn_image_def Let_def o_def pad_row_def
        padded_row_size_stride py_repeat_single)
qed

text \<open>
  The padded rows of \<^verbatim>\<open>generate_icon.py\<close> are the colour rows of the encoding
  of its picture turned upside down.
\<close>

lemma simple_pixel_data_encode:
  assumes "0 < width" and "0 < height"
  shows "simple_pixel_data width height
    = encode_pixels (flip_image (simple_drawn_image width height))"
proof -
  have "map (encode_row (simple_drawn_image width height))
        (image_rows (simple_drawn_image width height))
      = map (pad_row width) (simple_rows width height)"
    unfolding simple_drawn_image_rows(2) [OF assms] simple_rows_def map_map o_def
    by (intro map_cong refl encode_row_simple_drawn [OF assms(1)])
  then show ?thesis
    by (simp add: encode_pixels_flip [OF simple_drawn_image_rows(1) [OF assms]]
        simple_pixel_data_def)
qed

text \<open>The first 62 bytes of both files at 32 by 32 pixels, and the rest.\<close>

lemma replicate_2: "replicate 2 x = [x, x]"
  by (simp add: numeral_2_eq_2)

lemma simple_ico_bytes_32:
  "simple_ico_bytes 32 32 =
     [0, 0, 1, 0, 1, 0,
      32, 32, 0, 0, 1, 0, 32, 0, 168, 12, 0, 0, 22, 0, 0, 0,
      40, 0, 0, 0, 32, 0, 64, 0, 1, 0, 0, 0, 24, 0, 0, 0]
     @ replicate 24 0 @ simple_pixel_data 32 32 @ replicate 128 0"
  by (simp add: simple_ico_bytes_def simple_entry_bytes_def simple_image_def
      simple_header_bytes_def simple_image_size_def row_stride_def le_bytes_numeral
      replicate_2)

lemma encode_simple_drawn_32:
  "encode [flip_image (simple_drawn_image 32 32)] = Inr
     ([0, 0, 1, 0, 1, 0,
       32, 32, 0, 0, 1, 0, 24, 0, 168, 12, 0, 0, 22, 0, 0, 0,
       40, 0, 0, 0, 32, 0, 0, 0, 64, 0, 0, 0, 1, 0, 24, 0]
      @ replicate 24 0 @ simple_pixel_data 32 32 @ replicate 128 0)"
proof -
  let ?im = "flip_image (simple_drawn_image 32 32)"
  have v: "valid_image ?im" by (intro valid_flip_image simple_drawn_image_rows(1)) simp_all
  have f: "img_width ?im = 32" "img_height ?im = 32" "img_channels ?im = 3"
    by (simp_all add: flip_image_def simple_drawn_image_def)
  have "py_len (encode_image ?im) = 3240"
    by (simp add: length_encode_image [OF v] f padded_row_size_def mask_stride_def)
  moreover have "encode_image ?im
      = [40, 0, 0, 0, 32, 0, 0, 0, 64, 0, 0, 0, 1, 0, 24, 0] @ replicate 24 0
        @ simple_pixel_data 32 32 @ replicate 128 0"
    by (simp add: encode_image_def encode_header_def encode_mask_def f le_bytes_numeral
        simple_pixel_data_encode py_repeat_single)
  ultimately show ?thesis
    by (simp add: encode_def v encode_entry_def f dir_dim_def le_bytes_numeral replicate_2)
qed

text \<open>What a conformant reader makes of the image \<^verbatim>\<open>generate_icon.py\<close> writes.\<close>

lemma decode_simple_image:
  assumes "0 \<le> width" "width < 65536" "0 \<le> height" "height * 2 < 65536"
  shows "decode_image (simple_image width height)
      = Inr \<lparr>img_width = width + 131072 * height, img_height = 0, img_channels = 0,
              img_pixels = []\<rparr>"
  by (simp add: decode_image_def read_bmp_header_simple [OF assms] read_pixels_def py_eval)

lemma decode_simple_ico_bytes:
  assumes "simple_dims width height"
  shows "decode (simple_ico_bytes width height) 0
      = Inr \<lparr>img_width = width + 131072 * height, img_height = 0, img_channels = 0,
              img_pixels = []\<rparr>"
proof -
  from assms have "0 \<le> width" "width < 65536" "0 \<le> height" "height * 2 < 65536"
    by (simp_all add: simple_dims_def)
  then show ?thesis
    by (simp add: decode_def read_image_simple [OF assms] decode_simple_image)
qed

text \<open>What the reader makes of the file of the multi-size script.\<close>

lemma decode_ico_bytes:
  assumes "fits_container sizes" and "i < length sizes" and "0 < sizes ! i"
  shows "decode (ico_bytes sizes) (int i)
      = Inr (flip_image (drawn_image (sizes ! i) (sizes ! i)))"
proof -
  from assms have "valid_dims (sizes ! i) (sizes ! i)"
    by (simp add: fits_container_def list_all_length)
  with assms show ?thesis
    by (simp add: decode_def read_image_ico_bytes decode_image_bytes)
qed

section \<open>Properties\<close>

text \<open>
  C5. The file the body of \<open>create_ico_file\<close> builds is the file the encoder
  of the format description returns for the pictures turned upside down: the
  script implements the encoder, headers, directory, offsets and masks
  included, except that it stores the rows in the order it draws them.
\<close>

theorem create_ico_file_refines_encode:
  assumes "fits_container sizes" and "sizes \<noteq> []" and "list_all (\<lambda>sz. 0 < sz) sizes"
  shows "\<exists>file. ico_file_of sizes = Inr file
    \<and> encode (map (\<lambda>sz. flip_image (drawn_image sz sz)) sizes) = Inr file"
  using assms by (simp add: ico_file_of_ok encode_drawn)

theorem create_ico_file_refines_encode_witness:
  "\<exists>file. create_ico_file = Inr file
    \<and> encode [flip_image (drawn_image 16 16), flip_image (drawn_image 32 32),
               flip_image (drawn_image 48 48)] = Inr file"
  using create_ico_file_refines_encode [of "[16, 32, 48]"] fits_container_shipped
  by (simp add: create_ico_file_def)

text \<open>
  C12. A reader of the format that decodes image \<open>i\<close> of the file (directory
  entry, bitmap header, rows from the bottom, channels reordered) obtains the
  picture the script drew for that size turned upside down.
\<close>

theorem decode_create_ico_file:
  assumes "fits_container sizes" and "i < length sizes" and "0 < sizes ! i"
  shows "\<exists>file. ico_file_of sizes = Inr file
    \<and> decode file (int i) = Inr (flip_image (drawn_image (sizes ! i) (sizes ! i)))"
  using assms by (simp add: ico_file_of_ok decode_ico_bytes)

theorem decode_create_ico_file_witness:
  "\<exists>file. create_ico_file = Inr file
    \<and> decode file 1 = Inr (flip_image (drawn_image 32 32))"
  using decode_create_ico_file [of "[16, 32, 48]" 1] fits_container_shipped
  by (simp add: create_ico_file_def)

text \<open>
  C7. The file of \<^verbatim>\<open>generate_icon.py\<close> is the encoding of its picture turned
  upside down with five bytes changed: the bit count of the directory entry
  (32 instead of 24, byte 12) and, in the bitmap header packed with two-byte
  dimensions, the bytes 28, 30, 34 and 36. Everything else, the padded rows
  and the mask included, is what the encoder returns.
\<close>

theorem create_simple_ico_five_bytes:
  "\<exists>file spec. create_simple_ico = Inr file
    \<and> encode [flip_image (simple_drawn_image 32 32)] = Inr spec
    \<and> file = spec[12 := 32, 28 := 64, 30 := 1, 34 := 24, 36 := 0]
    \<and> file \<noteq> spec"
proof -
  have d: "simple_dims 32 32" by (simp add: simple_dims_def)
  show ?thesis
    by (simp add: create_simple_ico_def simple_ico_of_ok [OF d] simple_ico_bytes_32
        encode_simple_drawn_32)
qed

text \<open>
  C14. The file of the script is not the encoding of the picture as it is
  drawn: the encoder of the format description returns a file of the same
  length with the same header whose images differ from the script's, because
  it stores the bottom line first.
\<close>

theorem create_ico_file_not_encode_drawn:
  "\<exists>file spec. create_ico_file = Inr file
    \<and> encode [drawn_image 16 16, drawn_image 32 32, drawn_image 48 48] = Inr spec
    \<and> length file = length spec \<and> take 6 file = take 6 spec \<and> file \<noteq> spec"
proof -
  have v: "valid_image (drawn_image 16 16)" "valid_image (drawn_image 32 32)"
    "valid_image (drawn_image 48 48)"
    by (auto intro: drawn_image_rows(1))
  note d = encode_image_drawn_differs [of 16] encode_image_drawn_differs [of 32]
    encode_image_drawn_differs [of 48]
  from d show ?thesis
    by (simp add: create_ico_file_def ico_file_of_ok fits_container_shipped encode_def v
        ico_bytes_def)
qed



text \<open>
  C9. A conformant reader decodes the file of \<^verbatim>\<open>generate_icon.py\<close> to an image
  without a single line: the header packed with two-byte dimensions gives the
  width 4194336, the height \<open>1 div 2 = 0\<close> and no channels. The encoding it
  differs from in five bytes decodes to the picture (upside down, as the
  script stores it).
\<close>

theorem decode_create_simple_ico:
  "\<exists>file spec. create_simple_ico = Inr file
    \<and> encode [flip_image (simple_drawn_image 32 32)] = Inr spec
    \<and> decode file 0 = Inr \<lparr>img_width = 4194336, img_height = 0, img_channels = 0,
                              img_pixels = []\<rparr>
    \<and> decode spec 0 = Inr (flip_image (simple_drawn_image 32 32))"
proof -
  have d: "simple_dims 32 32" by (simp add: simple_dims_def)
  have "decode (simple_ico_bytes 32 32) 0
      = Inr \<lparr>img_width = 4194336, img_height = 0, img_channels = 0, img_pixels = []\<rparr>"
    by (simp add: decode_simple_ico_bytes [OF d])
  moreover from decode_encode [OF encode_simple_drawn_32, of 0]
  have "decode ([0, 0, 1, 0, 1, 0,
       32, 32, 0, 0, 1, 0, 24, 0, 168, 12, 0, 0, 22, 0, 0, 0,
       40, 0, 0, 0, 32, 0, 0, 0, 64, 0, 0, 0, 1, 0, 24, 0]
      @ replicate 24 0 @ simple_pixel_data 32 32 @ replicate 128 0) 0
      = Inr (flip_image (simple_drawn_image 32 32))"
    by (simp add: py_len_def length_simple_pixel_data row_stride_def)
  ultimately show ?thesis
    by (simp add: create_simple_ico_def simple_ico_of_ok [OF d] encode_simple_drawn_32)
qed

end
