(* ===== verification/Icon_Main.thy ===== *)
theory Icon_Main
  imports Multi_Size_Icon Simple_Icon Py_World Py_Str
begin

text \<open>
  The \<^verbatim>\<open>__main__\<close> blocks of the two scripts. Each builds its file in memory,
  opens \<^verbatim>\<open>icon.ico\<close> for writing in a \<^verbatim>\<open>with\<close> block, writes the bytes, leaves
  the block (which closes the file) and prints what it did. A block returns
  the world it leaves or raises an exception in a world. The bytes are built
  before the file is opened (\<open>raise_in\<close> places the generator in the world the
  block starts in), so a generator that raises leaves that world as it was,
  and so does an \<^verbatim>\<open>open\<close> that is refused. \<open>multi_size_ops\<close> and
  \<open>generate_icon_ops\<close> are the same blocks as sequences of operations of the
  world. \<open>multi_size_script\<close> and \<open>generate_icon_script\<close> are the blocks behind
  their guard \<^verbatim>\<open>__name__ == '__main__'\<close>.
\<close>

definition multi_size_main :: "world \<Rightarrow> io_result" where
  "multi_size_main w =
     bind_res (raise_in w create_ico_file) (\<lambda>ico_data.
     let filename = ''icon.ico'' in
     bind_res (with_open_wb filename (file_write filename ico_data) w) (\<lambda>w.
     let w = print_line (''Generated '' @ filename @ '' ('' @ py_str (py_len ico_data)
               @ '' bytes)'') w;
         w = print_line ''Contains: 16x16, 32x32, 48x48 pixels (32-bit BGRA)'' w
     in Inr w))"

definition generate_icon_main :: "world \<Rightarrow> io_result" where
  "generate_icon_main w =
     bind_res (raise_in w create_simple_ico) (\<lambda>ico_data.
     bind_res (with_open_wb ''icon.ico'' (file_write ''icon.ico'' ico_data) w) (\<lambda>w.
     let w = print_line (''Generated icon.ico ('' @ py_str (py_len ico_data) @ '' bytes)'') w
     in Inr w))"

text \<open>
  The guard \<^verbatim>\<open>if __name__ == '__main__':\<close> in front of each block: the block runs
  when the file is run as a script, and not when it is imported as a module
  under another name. Defining the functions touches no file.
\<close>

definition multi_size_script :: "string \<Rightarrow> world \<Rightarrow> io_result" where
  "multi_size_script name w = (if name = ''__main__'' then multi_size_main w else Inr w)"

definition generate_icon_script :: "string \<Rightarrow> world \<Rightarrow> io_result" where
  "generate_icon_script name w = (if name = ''__main__'' then generate_icon_main w else Inr w)"

text \<open>The operations a block performs once its bytes exist.\<close>

definition multi_size_ops :: "bytes \<Rightarrow> io_op list" where
  "multi_size_ops ico_data =
     [Open_wb ''icon.ico'', Write ''icon.ico'' ico_data, Close ''icon.ico'',
      Print (''Generated icon.ico ('' @ py_str (py_len ico_data) @ '' bytes)''),
      Print ''Contains: 16x16, 32x32, 48x48 pixels (32-bit BGRA)'']"

definition generate_icon_ops :: "bytes \<Rightarrow> io_op list" where
  "generate_icon_ops ico_data =
     [Open_wb ''icon.ico'', Write ''icon.ico'' ico_data, Close ''icon.ico'',
      Print (''Generated icon.ico ('' @ py_str (py_len ico_data) @ '' bytes)'')]"

section \<open>Writing a file\<close>

lemma with_open_wb_write:
  "name \<notin> read_only w \<Longrightarrow>
     with_open_wb name (file_write name data) w
       = Inr (w\<lparr>files := (files w)(name \<mapsto> data), open_files := open_files w - {name}\<rparr>)"
  by (simp add: with_open_wb_def open_wb_def file_write_def file_close_def)

lemma with_open_wb_ops:
  "with_open_wb name (file_write name data) w
     = run_ops [Open_wb name, Write name data, Close name] w"
  by (simp add: with_open_wb_def io_defs)

lemma create_ico_file_ok: "create_ico_file = Inr (ico_bytes [16, 32, 48])"
  by (simp add: create_ico_file_def ico_file_of_ok fits_container_shipped)

lemma create_simple_ico_ok: "create_simple_ico = Inr (simple_ico_bytes 32 32)"
  by (simp add: create_simple_ico_def simple_ico_of_ok simple_dims_def)

lemma py_len_shipped:
  "py_len (ico_bytes [16, 32, 48]) = 15086" "py_len (simple_ico_bytes 32 32) = 3262"
proof -
  show "py_len (ico_bytes [16, 32, 48]) = 15086"
    using shipped_sizes(2) by (simp add: py_len_ico_bytes)
  have "py_len (simple_ico_bytes 32 32) = 22 + py_len (simple_image 32 32)"
    by (simp add: simple_ico_bytes_def py_len_def)
  then show "py_len (simple_ico_bytes 32 32) = 3262"
    by (simp add: py_len_simple_image simple_image_size_def row_stride_def)
qed

section \<open>The blocks\<close>

lemma multi_size_main_ok:
  assumes "''icon.ico'' \<notin> read_only w"
  shows "multi_size_main w = Inr (w\<lparr>files := (files w)(''icon.ico'' \<mapsto> ico_bytes [16, 32, 48]),
      open_files := open_files w - {''icon.ico''},
      stdout := stdout w @ [''Generated icon.ico (15086 bytes)'',
                            ''Contains: 16x16, 32x32, 48x48 pixels (32-bit BGRA)'']\<rparr>)"
  using assms
  by (simp add: multi_size_main_def create_ico_file_ok with_open_wb_write print_line_def
      py_len_shipped py_str_example Let_def)

lemma generate_icon_main_ok:
  assumes "''icon.ico'' \<notin> read_only w"
  shows "generate_icon_main w
    = Inr (w\<lparr>files := (files w)(''icon.ico'' \<mapsto> simple_ico_bytes 32 32),
      open_files := open_files w - {''icon.ico''},
      stdout := stdout w @ [''Generated icon.ico (3262 bytes)'']\<rparr>)"
  using assms
  by (simp add: generate_icon_main_def create_simple_ico_ok with_open_wb_write print_line_def
      py_len_shipped py_str_example Let_def)

lemma main_read_only:
  assumes "''icon.ico'' \<in> read_only w"
  shows "multi_size_main w = Inl (OSError, w)" and "generate_icon_main w = Inl (OSError, w)"
  using assms
  by (simp_all add: multi_size_main_def generate_icon_main_def create_ico_file_ok
      create_simple_ico_ok with_open_wb_read_only)

lemma multi_size_main_ops:
  "multi_size_main w
    = bind_res (raise_in w create_ico_file) (\<lambda>ico_data. run_ops (multi_size_ops ico_data) w)"
  by (simp add: multi_size_main_def multi_size_ops_def create_ico_file_ok with_open_wb_ops
      run_ops_fun bind_res_assoc Let_def)

lemma generate_icon_main_ops:
  "generate_icon_main w
    = bind_res (raise_in w create_simple_ico)
        (\<lambda>ico_data. run_ops (generate_icon_ops ico_data) w)"
  by (simp add: generate_icon_main_def generate_icon_ops_def create_simple_ico_ok
      with_open_wb_ops run_ops_fun bind_res_assoc Let_def)

text \<open>Run as a script a file is its block; imported, it leaves the world alone.\<close>

lemma script_run [simp]:
  "multi_size_script ''__main__'' w = multi_size_main w"
  "generate_icon_script ''__main__'' w = generate_icon_main w"
  by (simp_all add: multi_size_script_def generate_icon_script_def)

lemma script_imported:
  "name \<noteq> ''__main__'' \<Longrightarrow> multi_size_script name w = Inr w"
  "name \<noteq> ''__main__'' \<Longrightarrow> generate_icon_script name w = Inr w"
  by (simp_all add: multi_size_script_def generate_icon_script_def)

text \<open>The operations of a block pass the static check exactly when the file is writable.\<close>

lemma main_ops_ok:
  "ops_ok (open_files w) (read_only w) (multi_size_ops ico_data) \<longleftrightarrow> ''icon.ico'' \<notin> read_only w"
  "ops_ok (open_files w) (read_only w) (generate_icon_ops ico_data)
     \<longleftrightarrow> ''icon.ico'' \<notin> read_only w"
  by (simp_all add: multi_size_ops_def generate_icon_ops_def)

section \<open>Properties\<close>

text \<open>
  C15. When \<^verbatim>\<open>icon.ico\<close> can be opened for writing, the \<^verbatim>\<open>__main__\<close> block of
  \<^verbatim>\<open>create_multi_size_icon.py\<close> leaves a world in which that file holds exactly
  the 15086 bytes of \<open>create_ico_file\<close>, whatever it held before, the file is
  closed, every other file is untouched and two lines have been printed.
\<close>

theorem multi_size_main_writes_file:
  assumes "''icon.ico'' \<notin> read_only w"
  shows "\<exists>w'. multi_size_main w = Inr w'
    \<and> Inr (the (files w' ''icon.ico'')) = create_ico_file
    \<and> (\<forall>name. name \<noteq> ''icon.ico'' \<longrightarrow> files w' name = files w name)
    \<and> read_only w' = read_only w \<and> open_files w' = open_files w - {''icon.ico''}
    \<and> stdout w' = stdout w @ [''Generated icon.ico (15086 bytes)'',
                                ''Contains: 16x16, 32x32, 48x48 pixels (32-bit BGRA)'']"
  by (simp add: multi_size_main_ok [OF assms] create_ico_file_ok)

theorem multi_size_main_writes_file_witness:
  "\<exists>w'. multi_size_main \<lparr>files = Map.empty, read_only = {}, open_files = {}, stdout = []\<rparr>
      = Inr w'
    \<and> Inr (the (files w' ''icon.ico'')) = create_ico_file \<and> open_files w' = {}
    \<and> stdout w' = [''Generated icon.ico (15086 bytes)'',
                     ''Contains: 16x16, 32x32, 48x48 pixels (32-bit BGRA)'']"
  using multi_size_main_writes_file
    [of "\<lparr>files = Map.empty, read_only = {}, open_files = {}, stdout = []\<rparr>"]
  by auto

text \<open>
  The same for \<^verbatim>\<open>generate_icon.py\<close>: the file holds the 3262 bytes of
  \<open>create_simple_ico\<close>, it is closed, and one line has been printed.
\<close>

theorem generate_icon_main_writes_file:
  assumes "''icon.ico'' \<notin> read_only w"
  shows "\<exists>w'. generate_icon_main w = Inr w'
    \<and> Inr (the (files w' ''icon.ico'')) = create_simple_ico
    \<and> (\<forall>name. name \<noteq> ''icon.ico'' \<longrightarrow> files w' name = files w name)
    \<and> read_only w' = read_only w \<and> open_files w' = open_files w - {''icon.ico''}
    \<and> stdout w' = stdout w @ [''Generated icon.ico (3262 bytes)'']"
  by (simp add: generate_icon_main_ok [OF assms] create_simple_ico_ok)

theorem generate_icon_main_writes_file_witness:
  "\<exists>w'. generate_icon_main
      \<lparr>files = [''icon.ico'' \<mapsto> [1, 2, 3]], read_only = {}, open_files = {}, stdout = []\<rparr>
      = Inr w'
    \<and> Inr (the (files w' ''icon.ico'')) = create_simple_ico
    \<and> stdout w' = [''Generated icon.ico (3262 bytes)'']"
  using generate_icon_main_writes_file
    [of "\<lparr>files = [''icon.ico'' \<mapsto> [1, 2, 3]], read_only = {}, open_files = {}, stdout = []\<rparr>"]
  by auto

text \<open>
  C32. When \<^verbatim>\<open>icon.ico\<close> cannot be opened for writing both blocks end with
  \<^verbatim>\<open>OSError\<close> in the world they started in: no file has been created, emptied
  or left open and nothing has been printed, because the bytes are built
  before the file is opened and \<^verbatim>\<open>open\<close> is the first statement that touches
  the world.
\<close>

theorem main_raises_when_read_only:
  assumes "''icon.ico'' \<in> read_only w"
  shows "multi_size_main w = Inl (OSError, w) \<and> generate_icon_main w = Inl (OSError, w)"
  using main_read_only [OF assms] by simp

theorem main_raises_when_read_only_witness:
  "multi_size_main \<lparr>files = Map.empty, read_only = {''icon.ico''}, open_files = {}, stdout = []\<rparr>
    = Inl (OSError,
        \<lparr>files = Map.empty, read_only = {''icon.ico''}, open_files = {}, stdout = []\<rparr>)"
  using main_raises_when_read_only
    [of "\<lparr>files = Map.empty, read_only = {''icon.ico''}, open_files = {}, stdout = []\<rparr>"]
  by simp



end
