(* ===== verification/Spec2Isabelle.thy ===== *)
theory Spec2Isabelle
  imports Icon_Prelude Py_For Py_Struct Py_Float Py_Str Py_World Ico_Format Ico_Encoder
    Multi_Size_Image Multi_Size_Icon Multi_Size_Pixels Simple_Icon Icon_Refinement Icon_Main
begin

text \<open>
  \<^bold>\<open>Verification of the ClipX icon generators\<close>

  The repository holds two Python scripts that assemble a Windows ICO file byte
  by byte: \<^verbatim>\<open>src/ClipD/resources/create_multi_size_icon.py\<close> (three images of
  16, 32 and 48 pixels, 32 bits per pixel) and
  \<^verbatim>\<open>src/ClipD/resources/generate_icon.py\<close> (one image of 32 pixels, 24 bits per
  pixel). Each computes the colour of every pixel in floating point, packs
  headers with \<^verbatim>\<open>struct.pack\<close>, joins the parts and writes the result to
  \<^verbatim>\<open>icon.ico\<close>. This development is a shallow embedding of that code in
  Isabelle/HOL with the theorems that say what the bytes are, and a model of
  the encoder and the reader of the format the scripts are compared with.

  \<^bold>\<open>The theories and what they model\<close>

  \<^descr>[\<open>Icon_Prelude\<close>] The Python values and built-ins the scripts use.
    Integers are \<open>int\<close>, bytes objects are lists of \<open>8 word\<close>. An exception is
    a value: a function that can raise returns \<open>py_error + 'a\<close> (\<open>Inl\<close> the
    exception), \<open>bind_res\<close> sequences two statements and \<open>for_res\<close> is a
    \<^verbatim>\<open>for\<close> loop whose body can raise (both for any type of exception, so
    that the statements of \<open>Py_World\<close> can raise in a world). \<open>py_range\<close>, \<open>py_slice\<close>, \<open>py_repeat\<close>,
    \<open>py_len\<close> and \<open>py_bytes\<close> are \<^verbatim>\<open>range\<close>, slicing, \<^verbatim>\<open>bytes * int\<close>,
    \<^verbatim>\<open>len\<close> and \<^verbatim>\<open>bytes(list)\<close>, with negative bounds and non-byte values
    handled as Python handles them. The collections \<open>py_length\<close>, \<open>py_ok\<close>
    and \<open>py_eval\<close> and the lemmas on loops and on joined and sliced rows are
    shared by all components.

  \<^descr>[\<open>Py_For\<close>] The \<^verbatim>\<open>for\<close> statement as the loop the interpreter runs:
    \<open>for_iter\<close> iterates \<open>iter_step\<close> (run the body on the element at the index,
    advance the index) by \<open>while_option\<close> as long as \<open>iter_test\<close> holds (an
    element is left and nothing has been raised). \<open>iter_inv\<close> is its invariant.

  \<^descr>[\<open>Py_Struct\<close>] \<^verbatim>\<open>struct.pack\<close> for the formats the scripts write
    (\<^verbatim>\<open>'<'\<close> with \<^verbatim>\<open>B\<close>, \<^verbatim>\<open>H\<close>, \<^verbatim>\<open>I\<close>): \<open>pack\<close> takes the format string
    of the source and raises \<open>StructError\<close> on a wrong count or a value
    out of range. \<open>unpack\<close> is its inverse.

  \<^descr>[\<open>Py_Float\<close>] Python floats as the rationals that are binary64
    numbers. \<open>fl\<close> rounds an exact result to the nearest double, ties to
    even, with the subnormal spacing below \<open>2 powi -1022\<close>; \<open>fadd\<close>, \<open>fmul\<close>,
    \<open>fdiv\<close> and \<open>py_truediv\<close> are the operations, \<open>py_int\<close> is \<^verbatim>\<open>int()\<close>.
    \<open>py_truediv\<close> raises \<^verbatim>\<open>ZeroDivisionError\<close> and, from \<open>overflow_threshold\<close>
    on, \<^verbatim>\<open>OverflowError\<close>.

  \<^descr>[\<open>Py_Str\<close>] \<open>py_str\<close>, the decimal text the f-string inserts for
    \<^verbatim>\<open>len(ico_data)\<close>.

  \<^descr>[\<open>Py_World\<close>] What the \<^verbatim>\<open>__main__\<close> blocks touch. The record \<open>world\<close>
    holds the files by name, the names that cannot be opened for writing, the
    names that are open, and the lines printed so far. A statement returns
    a world or raises in a world (\<open>io_result\<close>: \<open>Inr w\<close> or \<open>Inl (e, w)\<close>);
    \<open>final_world\<close> is the world either way. \<open>open_wb\<close> is
    \<^verbatim>\<open>open(name, 'wb')\<close> (it truncates, or raises \<open>OSError\<close>), \<open>file_write\<close>
    is \<^verbatim>\<open>f.write\<close> (\<open>ValueError\<close> on a closed file), \<open>file_close\<close>,
    \<open>py_finally\<close> and \<open>with_open_wb\<close> are the \<^verbatim>\<open>with\<close> statement, which closes
    the file on return and on an exception, \<open>print_line\<close> is \<^verbatim>\<open>print\<close>,
    \<open>raise_in\<close> places a call that touches no file in a world. The same
    operations are the datatype \<open>io_op\<close>, executed by \<open>do_op\<close> and \<open>run_ops\<close>
    and related by the inductive transition relation \<open>io_step\<close> with its runs
    \<open>io_run\<close>; \<open>world_ok\<close> is the invariant that no protected file is open,
    \<open>ops_ok\<close> the check that reads off a sequence of operations whether it
    has a run.

  \<^descr>[\<open>Ico_Format\<close>] The reader's view of the format (header, directory
    entry, image slice, bitmap header, row stride, stored and displayed rows,
    mask bits), written from the format description because the repository
    has no reader. It is the interface the generators are measured against.

  \<^descr>[\<open>Ico_Encoder\<close>] The encoder of the format description as an abstract
    specification: an \<open>ico_image\<close> is width, height, channel count and the
    pixels from the top; \<open>encode\<close> validates (\<open>valid_image\<close>) and returns
    header, directory (\<open>encode_directory\<close>) and images (\<open>encode_image\<close>:
    sub-header, rows from the bottom reordered and padded, zero mask), or
    \<open>InvalidImageError\<close>. \<open>decode_image\<close> and \<open>decode\<close> are the conformant
    reader of the round-trip property. The lemmas are the properties the
    description lists: the example, the rejections, the padding, and the
    round trip: every image of every accepted list is decoded from a file
    below 4 GiB as it was put in (\<open>decode_encode\<close>).

  \<^descr>[\<open>Multi_Size_Image\<close>] \<^verbatim>\<open>create_multi_size_icon.py\<close>, one image:
    \<open>create_icon_data\<close> (\<open>bmp_header\<close>, \<open>icon_pixels\<close>/\<open>icon_pixel\<close> with
    \<open>gradient\<close> and \<open>draw_clipboard\<close>, \<open>aligned_rows\<close>, \<open>and_mask\<close>).

  \<^descr>[\<open>Multi_Size_Icon\<close>] \<^verbatim>\<open>create_multi_size_icon.py\<close>, the container:
    \<open>create_ico_file\<close> (\<open>build_images\<close>, \<open>ico_header\<close>, \<open>build_directory\<close>
    over \<open>dir_step\<close>/\<open>dir_entry\<close> with the loop state \<open>dir_state\<close>, and the
    final concatenation; \<open>ico_file_of\<close> is the function's body over the local
    list \<^verbatim>\<open>sizes\<close>, which the script binds to \<^verbatim>\<open>[16, 32, 48]\<close>). The Python
    names \<^verbatim>\<open>size\<close> and \<^verbatim>\<open>image\<close> are written \<open>sz\<close> and \<open>img\<close> because HOL
    has constants of those names.

  \<^descr>[\<open>Multi_Size_Pixels\<close>] The picture of the multi-size script without
    floating point: \<open>int_rgb\<close>, \<open>int_box\<close>, \<open>int_clipboard\<close>, \<open>int_pixel\<close>,
    \<open>int_rows\<close> and \<open>int_image_bytes\<close> are reference definitions in integer
    arithmetic; \<open>blue_safe\<close> names the pixels at which the blue channel is
    not an exact integer at or below 170, where the rounding-error bound
    alone decides the truncation.

  \<^descr>[\<open>Simple_Icon\<close>] \<^verbatim>\<open>generate_icon.py\<close>: \<open>create_simple_ico\<close> is
    \<open>simple_ico_of 32 32\<close>, the body of the function over its locals
    \<^verbatim>\<open>width\<close> and \<^verbatim>\<open>height\<close>: \<open>simple_ico_header\<close>, \<open>bmp_info_header\<close>,
    \<open>simple_pixels\<close>/\<open>simple_pixel\<close> with \<open>simple_gradient\<close> and
    \<open>simple_clipboard\<close>, the padding loop \<open>padded_rows\<close>, \<open>simple_and_mask\<close>
    and the directory entry \<open>ico_dir\<close>. (The script's names \<^verbatim>\<open>ico_header\<close> and
    \<^verbatim>\<open>and_mask\<close> carry the prefix \<open>simple_\<close> here because the other script
    has functions of the same names.)

  \<^descr>[\<open>Icon_Refinement\<close>] The scripts against the encoder: \<open>drawn_image\<close>
    and \<open>simple_drawn_image\<close> are the pictures of the pixel loops as
    images, \<open>flip_image\<close> turns an image upside down.

  \<^descr>[\<open>Icon_Main\<close>] The two \<^verbatim>\<open>__main__\<close> blocks, \<open>multi_size_main\<close> and
    \<open>generate_icon_main\<close>, as functions from a world to a world or an
    exception in a world, composed of the generator and the operations of \<open>Py_World\<close>
    in the order of the statements; \<open>multi_size_ops\<close> and
    \<open>generate_icon_ops\<close> are the same blocks as sequences of operations;
    \<open>multi_size_script\<close> and \<open>generate_icon_script\<close> put the blocks behind
    the guard \<^verbatim>\<open>__name__ == '__main__'\<close>, so that an import of either file
    leaves the world as it is (\<open>script_imported\<close>).

  \<^descr>[\<open>Spec2Isabelle\<close>] This theory: the properties that relate the two
    scripts, and the image loop of \<^verbatim>\<open>create_ico_file\<close> as the interpreter runs
    it.

  \<^bold>\<open>What is proved\<close>

  \<^item> Functional behaviour on every branch: \<open>create_icon_data\<close> returns header,
    pixels and mask of the stated length for dimensions that fit the header
    (\<open>create_icon_data_returns\<close>) and raises \<^verbatim>\<open>struct.error\<close> exactly otherwise
    (\<open>create_icon_data_raises_iff\<close>); the shipped scripts return files of
    15086 and 3262 bytes (\<open>create_ico_file_bytes\<close>, \<open>create_simple_ico_bytes\<close>);
    the body of \<^verbatim>\<open>create_ico_file\<close> returns exactly when every entry fits its
    fields (\<open>ico_file_of_returns_iff\<close>); the body of \<^verbatim>\<open>create_simple_ico\<close>
    raises exactly when a dimension does not fit a byte
    (\<open>simple_ico_of_raises_iff\<close>); the padding loop raises exactly when a
    value it reads is not a byte (\<open>padded_rows_raises_iff\<close>).
  \<^item> The container contract: every directory entry points at its image
    (\<open>directory_entry_reads_image\<close>, \<open>simple_entry_reads_image\<close>), the offsets
    are contiguous and start behind the directory
    (\<open>directory_offsets_contiguous\<close>), the loop keeps the running offset
    (\<open>build_directory_invariant\<close>), the bitmap header reads back
    (\<open>bmp_header_reads_back\<close>), 256 is stored as 0 (\<open>dir_entry_256\<close>).
  \<^item> Refinement of the encoder: the file of \<^verbatim>\<open>create_ico_file\<close> is the encoding
    of the pictures turned upside down (\<open>create_ico_file_refines_encode\<close>),
    not of the pictures as drawn (\<open>create_ico_file_not_encode_drawn\<close>); a
    conformant reader decodes each picture upside down
    (\<open>decode_create_ico_file\<close>, at the level of rows
    \<open>stored_rows_top_down\<close>); the file of \<^verbatim>\<open>generate_icon.py\<close> is the encoding
    of its picture turned upside down with five bytes changed
    (\<open>create_simple_ico_five_bytes\<close>), and because of them a conformant
    reader decodes it to an image without a line, where the encoding decodes
    to the picture (\<open>decode_create_simple_ico\<close>); the pictures are
    well-formed images (\<open>drawn_images_valid\<close>).
  \<^item> What a reader of the standard layout finds in the header that
    \<^verbatim>\<open>generate_icon.py\<close> packs with two-byte dimensions
    (\<open>simple_header_misread\<close>); the mask bits: all opaque in the multi-size
    script (\<open>mask_bits_opaque\<close>); in the other script the mask has the
    length the format asks for only when the width is a multiple of 32
    (\<open>simple_and_mask_size\<close>), and at 16 pixels half of its bits lie
    behind the end of the image (\<open>simple_mask_too_short\<close>).
  \<^item> Floating point, one rounding: \<open>fl\<close> is monotone, exact on the doubles
    and within half a unit in the last place (\<open>fl_monotone\<close>,
    \<open>fl_exact_dyadic\<close>, \<open>fl_error_bound\<close>, \<open>fl_half_exact\<close>); rounded
    fractions of loop indices compare as the fractions do
    (\<open>fl_compare_fractions\<close>); \<^verbatim>\<open>int(c + a / d)\<close> is \<open>c + a div d\<close>
    (\<open>truediv_then_int\<close>); \<^verbatim>\<open>a / b\<close> on integers raises \<^verbatim>\<open>OverflowError\<close>
    exactly when the rounded quotient would reach \<open>2 ^ 1024\<close>, and returns a
    finite double otherwise (\<open>true_division_overflow\<close>).
  \<^item> Floating point, the pictures: the channels of \<^verbatim>\<open>generate_icon.py\<close>
    equal the integer formula for all dimensions up to \<open>2^40\<close>
    (\<open>simple_gradient_integer\<close>); the pixel of the multi-size script equals
    \<open>int_pixel\<close> wherever \<open>blue_safe\<close> holds (\<open>icon_pixel_integer\<close>,
    \<open>draw_clipboard_integer\<close>) and at every pixel of the sizes 16, 32 and 48
    (\<open>icon_pixel_shipped_sizes\<close>: the ten pixels of size 48 that are not
    \<open>blue_safe\<close> are settled by computing the roundings), so the file of the
    script is given without floating point (\<open>create_ico_file_pixels\<close>);
    every channel is a byte (\<open>icon_pixel_channels\<close>), so neither the
    division nor \<^verbatim>\<open>bytes()\<close> raises (\<open>pixel_bytes_never_raise\<close>).
  \<^item> Rows: at 32 bits per pixel the row-alignment loop is the identity
    (\<open>aligned_rows_identity\<close>); at 24 bits the padding loop fills every row
    up to the stride, a multiple of 4 (\<open>padded_rows_layout\<close>).
  \<^item> Loops: a \<^verbatim>\<open>for\<close> loop run by the interpreter ends, with the result of
    the recursive model and after one iteration per element unless the body
    raises (\<open>for_iter_terminates\<close>, by the measure \<open>len(xs) - i\<close> and the
    invariant \<open>iter_inv\<close>); the image loop of \<^verbatim>\<open>create_ico_file\<close> ends after
    one iteration per size, or right after the first size that does not fit
    the header (\<open>image_loop_iterations\<close>); the directory loop and the pixel
    loop take one iteration per image and per line
    (\<open>directory_loop_iterations\<close>, \<open>pixel_loop_iterations\<close>).
  \<^item> The world: in every run no protected file changes and none is open
    (\<open>protected_files_never_change\<close>, by rule induction over \<open>io_run\<close>), and
    the same holds of the world an exception is raised in
    (\<open>protected_files_survive_exceptions\<close>); the relation and the executable
    operations agree (\<open>io_run_is_run_ops\<close>); a sequence of operations has a
    run exactly when it passes the static check
    (\<open>checked_ops_run_to_the_end\<close>); a sequence that raises carries the world
    reached by the operations before the failing one
    (\<open>raised_world_is_reached\<close>); a \<^verbatim>\<open>with\<close> statement leaves its file closed
    on every path (\<open>with_open_wb_closes_file\<close>).
  \<^item> The \<^verbatim>\<open>__main__\<close> blocks: on a writable \<^verbatim>\<open>icon.ico\<close> each run leaves
    exactly the generated bytes in the file, the file closed, every other
    file untouched, and prints the line with the decimal length
    (\<open>multi_size_main_writes_file\<close>, \<open>generate_icon_main_writes_file\<close>); when
    the file cannot be opened the run raises in the world it started in
    (\<open>main_raises_when_read_only\<close>); each block is a run of the transition
    relation (\<open>main_is_a_run\<close>); the decimal text reads back as the number
    (\<open>py_str_reads_back\<close>).
  \<^item> Across the scripts (this theory): on square images both compute the
    same gradient (\<open>both_scripts_same_gradient\<close>); both draw the clip only
    where its box overlaps the body of the clipboard, so its upper lines are
    missing (\<open>clip_cut_off\<close>); run one after the other the later script's
    file remains (\<open>last_writer_wins\<close>); what a conformant reader decodes from
    the file each script leaves in the world (\<open>icon_file_end_to_end\<close>).

  \<^bold>\<open>Bounds chosen\<close>

  No fuel is used: every loop of the scripts is a \<^verbatim>\<open>for\<close> over a \<^verbatim>\<open>range\<close> or a
  list and is modelled by structural recursion on that list (\<open>for_res\<close>), so
  every function of the model is total. That the loop itself ends is the
  theorem on \<open>for_iter\<close>, which is \<open>while_option\<close> and returns \<open>None\<close> when it
  does not end: it is proved to return \<open>Some\<close> for every list and body. The
  one recursion that is not structural, \<open>digits\<close>, is accepted by \<open>fun\<close> with
  its termination proof. The widths of the packed fields (8, 16, 32
  bits) are those of the format codes. \<open>fits_container\<close> (the whole file
  fits 32-bit offsets) is the hypothesis of the theorems on reading the
  container; \<open>returns_file\<close> is the weaker exact condition. The bound \<open>2^40\<close>
  on the dimensions in the results on \<^verbatim>\<open>generate_icon.py\<close> leaves the 53-bit
  significand room for the quotient and the channel; the multi-size script
  rounds three times per channel, and the bound \<open>2^38\<close> on \<open>width * height\<close>
  keeps the accumulated error below the distance of the exact value from the
  next integer. Every dimension a directory entry can hold is far below both.

  \<^bold>\<open>Not modelled\<close>

  \<^item> Failures of \<^verbatim>\<open>f.write\<close> and \<^verbatim>\<open>print\<close> (a full disk, a closed console),
    buffering, and two handles on one file.
  \<^item> Infinities and NaN as results of \<^verbatim>\<open>+\<close>, \<^verbatim>\<open>*\<close> and \<^verbatim>\<open>/\<close> on floats, and
    \<^verbatim>\<open>int()\<close> of them. The scripts never reach them: inside the loops every
    quotient \<^verbatim>\<open>x / width\<close> lies in \<open>[0, 1]\<close> and every float in \<open>[-256, 256]\<close>
    (\<open>icon_pixel_channels\<close>, \<open>simple_gradient_integer\<close>). Only true division of
    integers is modelled on all its arguments.
  \<^item> Formats of \<^verbatim>\<open>struct\<close> other than little-endian \<^verbatim>\<open>B\<close>, \<^verbatim>\<open>H\<close>, \<^verbatim>\<open>I\<close>; the
    scripts use no other.
  \<^item> \<^verbatim>\<open>zlib\<close>, which \<^verbatim>\<open>generate_icon.py\<close> imports and never calls.
\<close>

section \<open>The two scripts side by side\<close>

lemma int_rgb_square:
  assumes "0 < n"
  shows "int_rgb n n y x = int_gradient n n y x"
proof -
  have "- 36 * (x * n + y * n) div (n * n) = n * (- 36 * (x + y)) div (n * n)"
    by (simp add: algebra_simps)
  also have "\<dots> = - 36 * (x + y) div n" using assms by (simp only: div_mult_mult1_if) simp
  also have "\<dots> = 2 * (- 36 * (x + y)) div (2 * n)" by (simp only: div_mult_mult1_if) simp
  finally show ?thesis by (simp add: int_rgb_def int_gradient_def)
qed

text \<open>
  C30. On a square image both scripts compute the same gradient, although one
  rounds \<^verbatim>\<open>x / width\<close> first and multiplies afterwards and the other divides
  the product: both equal the integer formula.
\<close>

theorem both_scripts_same_gradient:
  assumes "0 \<le> x" and "x < n" and "0 \<le> y" and "y < n" and "n \<le> 2 ^ 19"
    and "n dvd 36 * (x + y) \<longrightarrow> 36 * (x + y) \<le> 63 * n"
  shows "gradient (fl (of_int x / of_int n)) (fl (of_int y / of_int n)) = simple_gradient n n y x"
proof -
  from assms(1,2) have n: "0 < n" by simp
  from assms(5) n have "n * n \<le> 2 ^ 19 * 2 ^ 19" by (intro mult_mono) simp_all
  then have nn: "n * n \<le> 2 ^ 38" by simp
  from assms(6) have "blue_safe n n y x" by (simp add: blue_safe_square [OF n])
  with assms(1-4) nn have "blue_agrees n n y x" unfolding blue_agrees_def by (intro blue_int)
  with assms(1-4) nn
  have "gradient (fl (of_int x / of_int n)) (fl (of_int y / of_int n)) = Inr (int_rgb n n y x)"
    by (intro gradient_int)
  moreover from assms(1-5) have "simple_gradient n n y x = Inr (int_gradient n n y x)"
    by (intro simple_gradient_int) simp_all
  ultimately show ?thesis by (simp add: int_rgb_square [OF n])
qed

theorem both_scripts_same_gradient_witness:
  "gradient (fl (5 / 32)) (fl (7 / 32)) = simple_gradient 32 32 7 5
    \<and> simple_gradient 32 32 7 5 = Inr (104, 114, 220)"
  using both_scripts_same_gradient [of 5 32 7] simple_gradient_int [of 5 32 7 32]
  by (simp add: int_gradient_def)

text \<open>
  C29. Both scripts write \<^verbatim>\<open>icon.ico\<close>. Run one after the other, the second
  replaces what the first wrote: the file left behind is the file of the
  script that ran last, and the two orders leave different files.
\<close>

theorem last_writer_wins:
  assumes "''icon.ico'' \<notin> read_only w"
  shows "\<exists>w1 w2. bind_res (multi_size_main w) generate_icon_main = Inr w1
    \<and> bind_res (generate_icon_main w) multi_size_main = Inr w2
    \<and> Inr (the (files w1 ''icon.ico'')) = create_simple_ico
    \<and> Inr (the (files w2 ''icon.ico'')) = create_ico_file
    \<and> files w1 ''icon.ico'' \<noteq> files w2 ''icon.ico''
    \<and> length (stdout w1) = length (stdout w) + 3 \<and> length (stdout w2) = length (stdout w) + 3"
proof -
  have "py_len (simple_ico_bytes 32 32) \<noteq> py_len (ico_bytes [16, 32, 48])"
    by (simp only: py_len_shipped)
  then have "simple_ico_bytes 32 32 \<noteq> ico_bytes [16, 32, 48]" by auto
  then show ?thesis
    using assms
    by (simp add: multi_size_main_ok generate_icon_main_ok create_ico_file_ok
        create_simple_ico_ok)
qed

theorem last_writer_wins_witness:
  "\<exists>w1. bind_res (multi_size_main
            \<lparr>files = Map.empty, read_only = {}, open_files = {}, stdout = []\<rparr>)
          generate_icon_main = Inr w1
    \<and> Inr (the (files w1 ''icon.ico'')) = create_simple_ico \<and> length (stdout w1) = 3"
  using last_writer_wins
    [of "\<lparr>files = Map.empty, read_only = {}, open_files = {}, stdout = []\<rparr>"]
  by auto



text \<open>
  The other loops of the script, run the same way: the directory loop takes
  one iteration per image when every entry fits its fields, and the outer
  pixel loop of \<open>create_icon_data\<close> one iteration per line.
\<close>

lemma directory_loop_iterations:
  assumes "entries_fit off imgs"
  shows "for_iter imgs dir_step \<lparr>directory = [], data_offset = off\<rparr>
    = Some (length imgs, build_directory imgs off)"
  using assms unfolding build_directory_def
  by (intro for_iter_ok) (simp add: dir_loop_iff)

lemma pixel_loop_iterations:
  "for_iter (py_range height) (\<lambda>y pixels.
       for_res (py_range width) (\<lambda>x pixels.
         bind_res (icon_pixel width height y x) (\<lambda>px. Inr (pixels @ px))) pixels) []
    = Some (nat height, icon_pixels width height)"
proof -
  have "is_ok (icon_pixels width height)" by (simp add: icon_pixels_ok)
  then show ?thesis
    unfolding icon_pixels_def by (subst for_iter_ok) simp_all
qed

text \<open>
  C31. Both scripts test the box of the clip only inside the box of the
  clipboard body, which begins lower: the clip is drawn from line \<open>0.2 * height\<close>
  (line 6 in \<^verbatim>\<open>generate_icon.py\<close>) although its box begins at \<open>0.15 * height\<close>
  (line 5). The lines of the clip above the body keep the gradient: lines 5
  and 6 of the 32-pixel image, 8 and 9 of the 48-pixel image, line 3 of the
  16-pixel image.
\<close>

theorem clip_cut_off:
  assumes "0 \<le> x" and "x < width" and "0 \<le> y" and "y < height"
    and "width \<le> 2 ^ 38" and "height \<le> 2 ^ 38" and "rgb \<noteq> (70, 70, 75)"
  shows "(draw_clipboard (fl (of_int x / of_int width)) (fl (of_int y / of_int height)) rgb
        = (70, 70, 75)
      \<longleftrightarrow> 40 * width \<le> 100 * x \<and> 100 * x \<le> 60 * width
        \<and> 20 * height \<le> 100 * y \<and> 100 * y \<le> 35 * height)
    \<and> (simple_clipboard x y rgb = (70, 70, 75) \<longleftrightarrow> 13 \<le> x \<and> x \<le> 19 \<and> 6 \<le> y \<and> y \<le> 10)"
proof -
  from assms(1-4) have "0 < width" "0 < height" by simp_all
  from int_clipboard_clip_iff [OF this assms(7)] simple_clipboard_clip_iff [OF assms(7)]
  show ?thesis
    by (simp add: draw_clipboard_int [OF assms(1-6)] int_box_def)
qed

theorem clip_cut_off_witness:
  "draw_clipboard (fl (16 / 32)) (fl (5 / 32)) (110, 119, 211) \<noteq> (70, 70, 75)
    \<and> int_box 40 60 15 35 32 32 5 16
    \<and> simple_clipboard 16 5 (110, 119, 211) \<noteq> (70, 70, 75)"
  using clip_cut_off [of 16 32 5 32 "(110, 119, 211)"]
  by (simp add: int_box_def)

text \<open>
  C16. From the script to the reader. After \<^verbatim>\<open>create_multi_size_icon.py\<close> has
  run in a world where \<^verbatim>\<open>icon.ico\<close> can be written, a conformant reader that
  opens the file decodes each of the three images to the picture drawn for
  its size, upside down. After \<^verbatim>\<open>generate_icon.py\<close> has run, the reader gets
  an image of height 0 without pixels.
\<close>

theorem icon_file_end_to_end:
  assumes "''icon.ico'' \<notin> read_only w" and "i < 3"
  shows "(\<exists>w' file. multi_size_main w = Inr w' \<and> files w' ''icon.ico'' = Some file
        \<and> decode file (int i)
            = Inr (flip_image (drawn_image ([16, 32, 48] ! i) ([16, 32, 48] ! i))))
    \<and> (\<exists>w' file. generate_icon_main w = Inr w' \<and> files w' ''icon.ico'' = Some file
        \<and> decode file 0 = Inr \<lparr>img_width = 4194336, img_height = 0, img_channels = 0,
                                  img_pixels = []\<rparr>)"
proof -
  from assms(2) have "0 < [16, 32, 48 :: int] ! i"
    by (auto simp: less_Suc_eq numeral_3_eq_3)
  with assms(2) have "decode (ico_bytes [16, 32, 48]) (int i)
      = Inr (flip_image (drawn_image ([16, 32, 48] ! i) ([16, 32, 48] ! i)))"
    by (intro decode_ico_bytes fits_container_shipped) simp_all
  moreover have "decode (simple_ico_bytes 32 32) 0
      = Inr \<lparr>img_width = 4194336, img_height = 0, img_channels = 0, img_pixels = []\<rparr>"
    using decode_simple_ico_bytes [of 32 32] by (simp add: simple_dims_def)
  ultimately show ?thesis
    by (simp add: multi_size_main_ok [OF assms(1)] generate_icon_main_ok [OF assms(1)])
qed

theorem icon_file_end_to_end_witness:
  "\<exists>w' file. multi_size_main \<lparr>files = Map.empty, read_only = {}, open_files = {}, stdout = []\<rparr>
       = Inr w' \<and> files w' ''icon.ico'' = Some file
     \<and> decode file 2 = Inr (flip_image (drawn_image 48 48))"
  using icon_file_end_to_end
    [of "\<lparr>files = Map.empty, read_only = {}, open_files = {}, stdout = []\<rparr>" 2]
  by simp

end
